theory Spec2Isabelle
  imports
    Complex_Main
    "HOL-Library.Char_ord"
    "HOL-Library.List_Lexorder"
    "HOL-Library.Multiset"
begin

section \<open>Data model\<close>

text \<open>
  The report controller and \<^verbatim>\<open>addAnalysisSheetsToWorkbook.ts\<close> work on JavaScript
  values. In this development
  \<^item> a \<^verbatim>\<open>Date\<close> is its time value, an \<open>int\<close> of milliseconds since the epoch (UTC);
    invalid dates (NaN) are not modelled;
  \<^item> a JavaScript \<^verbatim>\<open>number\<close> holding an energy quantity is a \<open>real\<close>: the arithmetic
    of the source on these quantities is read as exact arithmetic; the numbers of the two
    column-address functions are integers held in doubles, and there every operation is
    rounded as the arithmetic of doubles rounds it;
  \<^item> a \<^verbatim>\<open>Map<string, V>\<close> that is only read by key is a map \<open>string \<rightharpoonup> V\<close>; a map
    that is iterated is an association list in insertion order;
  \<^item> the helper \<^verbatim>\<open>formatDate\<close> (\<^verbatim>\<open>utils/formatDate\<close>) is not part of the sources at
    hand, so every function that calls it takes it as the parameter \<open>formatDate\<close>.
\<close>

definition msPerDay :: int where
  "msPerDay = 86400000"

text \<open>\<^verbatim>\<open>d.setUTCHours(0, 0, 0, 0)\<close>: the midnight (UTC) that starts the day of \<open>t\<close>.\<close>

definition utcMidnight :: "int \<Rightarrow> int" where
  "utcMidnight t = t - t mod msPerDay"

text \<open>\<^verbatim>\<open>IFeederReading\<close> (the fields the report code reads).\<close>

record IFeederReading =
  reading_date :: int
  reading_feeder :: string
  cumulativeEnergyConsumption :: real

text \<open>
  A populated reference (\<^verbatim>\<open>feeder.region\<close>, \<^verbatim>\<open>feeder.businessHub\<close>): an object with a
  \<^verbatim>\<open>name\<close>, \<^verbatim>\<open>null\<close> (what populating leaves when the referenced document is
  missing), a plain string, or \<^verbatim>\<open>undefined\<close>.
\<close>

datatype nameRef = NameObject string | NameNull | NameString string | NameUndefined

record PopulatedFeeder =
  feeder_id :: string
  feeder_name :: string
  feeder_businessHub :: nameRef
  feeder_region :: nameRef
  dailyEnergyUptake :: real

record ReportRow =
  row_nomination :: real
  row_actual :: real
  row_variance :: real

record FailedChecks =
  fc_feederName :: string
  fc_businessHub :: string
  fc_region :: string
  fc_date :: string
  fc_failedChecks :: "string list"

section \<open>Column addresses\<close>

text \<open>
  A JavaScript number is an IEEE 754 double. \<^verbatim>\<open>getColumnLetter\<close> and \<^verbatim>\<open>colToNum\<close>
  compute with integers held in doubles. The model keeps the exact value of such a double
  in an \<open>int\<close> and rounds the result of every operation as the arithmetic of doubles
  does: to the nearest number with 53 significant binary digits, a tie going to the even
  significand. The argument of \<^verbatim>\<open>getColumnLetter\<close> is the value of a finite double
  that is an integer.
\<close>

text \<open>The number of binary digits of a positive integer.\<close>

function bitLength :: "int \<Rightarrow> nat" where
  "bitLength m = (if m \<le> 0 then 0 else Suc (bitLength (m div 2)))"
  by pat_completeness auto
termination
  by (relation "measure nat") auto

declare bitLength.simps [simp del]

text \<open>
  The double nearest to the integer \<open>x\<close>: below \<open>2\<^sup>5\<^sup>3\<close> every integer is a double;
  from there on the doubles are the multiples of \<open>2\<^sup>e\<close>, where \<open>e\<close> is the number of
  binary digits beyond 53.
\<close>

definition roundNearest :: "int \<Rightarrow> int" where
  "roundNearest x =
     (let m = \<bar>x\<bar>
      in if m < 2 ^ 53 then x
         else
           (let e = bitLength m - 53;
                q = m div 2 ^ e;
                r = m mod 2 ^ e;
                q' = (if 2 * r > 2 ^ e \<or> (2 * r = 2 ^ e \<and> odd q) then q + 1 else q)
            in sgn x * (q' * 2 ^ e)))"

text \<open>
  The result of an operation whose exact result is the integer \<open>x\<close>: the nearest double,
  or an infinity (\<open>None\<close>) when rounding leaves the range of the finite doubles.
\<close>

definition roundDouble :: "int \<Rightarrow> int option" where
  "roundDouble x = (let y = roundNearest x in if \<bar>y\<bar> \<ge> 2 ^ 1024 then None else Some y)"

text \<open>
  \<^verbatim>\<open>Math.floor(x / 26)\<close> for an integer \<open>x \<ge> 0\<close> held in a double. The quotient is
  rounded to 53 significant binary digits before the floor is taken: for \<open>x \<ge> 26\<close> the
  quotient lies between \<open>2\<^sup>e\<close> and \<open>2\<^sup>e\<^sup>+\<^sup>1\<close>, where \<open>e + 1\<close> is the number of binary digits
  of its integer part, and it is rounded to a multiple of \<open>2\<^sup>e\<^sup>-\<^sup>5\<^sup>2\<close>. Below 26 the quotient
  is below 1 and so is the double nearest to it.
\<close>

definition floorDiv26 :: "int \<Rightarrow> int" where
  "floorDiv26 x =
     (if x < 26 then 0
      else
        (let e = bitLength (x div 26) - 1
         in if e \<le> 52 then
              (let s = 52 - e;
                   n = x * 2 ^ s;
                   q = n div 26;
                   r = n mod 26;
                   q' = (if 2 * r > 26 \<or> (2 * r = 26 \<and> odd q) then q + 1 else q)
               in q' div 2 ^ s)
            else
              (let s = e - 52;
                   d = 26 * 2 ^ s;
                   q = x div d;
                   r = x mod d;
                   q' = (if 2 * r > d \<or> (2 * r = d \<and> odd q) then q + 1 else q)
               in q' * 2 ^ s)))"

text \<open>
  \<^verbatim>\<open>getColumnLetter\<close> of the report controller. The loop runs while \<open>current > 0\<close>;
  \<^verbatim>\<open>current - 1\<close> and both subtractions of \<^verbatim>\<open>current - temp - 1\<close> are rounded, the
  remainder \<^verbatim>\<open>%\<close> of doubles is exact, and the number divided by 26 is never negative
  (\<open>loop_dividend_nonneg\<close> below). The loop ends for every argument
  (\<open>loop_turn_decreases\<close>).
\<close>

function getColumnLetter_loop :: "int \<Rightarrow> string \<Rightarrow> string" where
  "getColumnLetter_loop current letter =
     (if current > 0 then
        (let temp = roundNearest (current - 1) mod 26
         in getColumnLetter_loop
              (floorDiv26 (roundNearest (roundNearest (current - temp) - 1)))
              (char_of (temp + 65) # letter))
      else letter)"
  by pat_completeness auto

definition getColumnLetter :: "int \<Rightarrow> string" where
  "getColumnLetter colIndex = getColumnLetter_loop colIndex []"

text \<open>
  \<^verbatim>\<open>colToNum\<close>, the local function of \<^verbatim>\<open>addAnalysisSheetsToWorkbook\<close>:
  \<^verbatim>\<open>num * 26\<close> is rounded, then the sum with \<^verbatim>\<open>col.charCodeAt(i) - 64\<close>. The result
  \<open>None\<close> is an infinity, which every further step leaves infinite.
\<close>

definition colToNum :: "string \<Rightarrow> int option" where
  "colToNum col =
     foldl (\<lambda>num c. case num of
                       None \<Rightarrow> None
                     | Some v \<Rightarrow>
                         (case roundDouble (v * 26) of
                            None \<Rightarrow> None
                          | Some p \<Rightarrow> roundDouble (p + (of_char c - 64))))
           (Some 0) col"

text \<open>
  For the comparison of the two functions: the number a column name stands for when its
  characters are read as digits to the base 26 without any rounding, and the names whose
  characters all have a digit of at least 1 (the capital letters have the digits 1 to 26).
\<close>

definition columnValue :: "string \<Rightarrow> int" where
  "columnValue col = foldl (\<lambda>num c. num * 26 + (of_char c - 64)) 0 col"

definition columnLetters :: "string \<Rightarrow> bool" where
  "columnLetters col \<longleftrightarrow> list_all (\<lambda>c. 1 \<le> (of_char c :: int) - 64) col"

section \<open>Date Range Expander\<close>

function getDatesInRange_loop :: "int list \<Rightarrow> int \<Rightarrow> int \<Rightarrow> int list" where
  "getDatesInRange_loop dates currentDate endDate =
     (if currentDate \<le> endDate
      then getDatesInRange_loop (dates @ [currentDate]) (currentDate + msPerDay) endDate
      else dates)"
  by pat_completeness auto
termination
  by (relation "measure (\<lambda>(dates, currentDate, endDate). nat (endDate - currentDate + 1))")
     (auto simp: msPerDay_def)

declare getDatesInRange_loop.simps [simp del]

definition getDatesInRange :: "int \<Rightarrow> int \<Rightarrow> int list" where
  "getDatesInRange startDate endDate = getDatesInRange_loop [] (utcMidnight startDate) endDate"

text \<open>
  \<^verbatim>\<open>calculateDateRange(specificDate?)\<close>: the argument is the parsed date when one is given,
  \<open>now\<close> is the clock read by \<^verbatim>\<open>new Date()\<close>.
\<close>

definition calculateDateRange :: "int option \<Rightarrow> int \<Rightarrow> int \<times> int" where
  "calculateDateRange specificDate now =
     (case specificDate of
        Some d \<Rightarrow> (let date = utcMidnight d in (date, date + 86399999))
      | None \<Rightarrow> (let today = utcMidnight now in (today, today + 86399999)))"

text \<open>
  The Date Range Expander as section 4.1 of the specification words it, for comparison
  with \<open>getDatesInRange\<close>: a failure when the end precedes the start, otherwise the days
  from the start's day to the end's day.
\<close>

datatype rangeError = InvalidRange

definition spec_dateRangeExpander :: "int \<Rightarrow> int \<Rightarrow> rangeError + int list" where
  "spec_dateRangeExpander startDate endDate =
     (if endDate < startDate then Inl InvalidRange
      else Inr (map (\<lambda>k. utcMidnight startDate + int k * msPerDay)
                  [0..<nat (endDate div msPerDay - startDate div msPerDay + 1)]))"

section \<open>Reading Store Adapter\<close>

text \<open>
  The process-wide cache of \<^verbatim>\<open>FeederDataService\<close>: the static fields
  \<^verbatim>\<open>readingsCache\<close> and \<^verbatim>\<open>cacheTimestamp\<close>.
\<close>

record FeederDataService =
  readingsCache :: "string \<rightharpoonup> IFeederReading list"
  cacheTimestamp :: int

definition CACHE_TTL :: int where
  "CACHE_TTL = 5 * 60 * 1000"

definition initialService :: FeederDataService where
  "initialService = \<lparr>readingsCache = Map.empty, cacheTimestamp = 0\<rparr>"

text \<open>
  The cache key \<^verbatim>\<open>`${startDate.toISOString()}-${endDate.toISOString()}`\<close>;
  \<^verbatim>\<open>toISOString\<close> is the runtime's and is a parameter.
\<close>

definition makeCacheKey :: "(int \<Rightarrow> string) \<Rightarrow> int \<Rightarrow> int \<Rightarrow> string" where
  "makeCacheKey toISOString startDate endDate = toISOString startDate @ ''-'' @ toISOString endDate"

text \<open>
  The block under \<^verbatim>\<open>// Update cache\<close>: \<^verbatim>\<open>clear()\<close>, \<^verbatim>\<open>set(cacheKey, readings)\<close> and
  the timestamp, which is the clock value read at the start of the call.
\<close>

definition updateCache ::
  "(int \<Rightarrow> string) \<Rightarrow> int \<Rightarrow> int \<Rightarrow> int \<Rightarrow> IFeederReading list \<Rightarrow> FeederDataService" where
  "updateCache toISOString startDate endDate now found =
     \<lparr>readingsCache = Map.empty(makeCacheKey toISOString startDate endDate \<mapsto> found),
      cacheTimestamp = now\<rparr>"

text \<open>
  \<^verbatim>\<open>getAllReadingsInRange(startDate, endDate)\<close>. \<open>now\<close> is the value of
  \<^verbatim>\<open>Date.now()\<close> and \<open>found\<close> the answer the reading store gives to the range query
  when it is asked (the call is followed on the path where the store answers); the call
  returns the readings and the new state of the service.
\<close>

definition getAllReadingsInRange ::
  "(int \<Rightarrow> string) \<Rightarrow> int \<Rightarrow> int \<Rightarrow> int \<Rightarrow> IFeederReading list \<Rightarrow> FeederDataService
     \<Rightarrow> IFeederReading list \<times> FeederDataService" where
  "getAllReadingsInRange toISOString startDate endDate now found svc =
     (let cacheKey = makeCacheKey toISOString startDate endDate
      in case readingsCache svc cacheKey of
           Some cached \<Rightarrow>
             if now - cacheTimestamp svc < CACHE_TTL then (cached, svc)
             else (found, updateCache toISOString startDate endDate now found)
         | None \<Rightarrow> (found, updateCache toISOString startDate endDate now found))"

text \<open>
  A run of the service. The function is asynchronous: it runs without interruption up to
  the query of the store, and an invocation that missed the cache resumes with the update
  block after the store has answered, possibly after other invocations have run. A step
  of a run is an invocation carried out without interruption, or the resumption of an
  earlier invocation that missed; each comes with its arguments, the clock value it read
  and the store's answer.
\<close>

record rangeCall =
  call_start :: int
  call_end :: int
  call_now :: int
  call_found :: "IFeederReading list"

datatype serviceStep = Invocation rangeCall | Resumption rangeCall

fun stepCall :: "serviceStep \<Rightarrow> rangeCall" where
  "stepCall (Invocation c) = c"
| "stepCall (Resumption c) = c"

fun serveStep :: "(int \<Rightarrow> string) \<Rightarrow> FeederDataService \<Rightarrow> serviceStep \<Rightarrow> FeederDataService" where
  "serveStep toISOString svc (Invocation c) =
     snd (getAllReadingsInRange toISOString (call_start c) (call_end c) (call_now c) (call_found c) svc)"
| "serveStep toISOString svc (Resumption c) =
     updateCache toISOString (call_start c) (call_end c) (call_now c) (call_found c)"

definition serveSteps :: "(int \<Rightarrow> string) \<Rightarrow> serviceStep list \<Rightarrow> FeederDataService" where
  "serveSteps toISOString steps = foldl (serveStep toISOString) initialService steps"

text \<open>\<^verbatim>\<open>groupReadingsByFeeder\<close>; the resulting map is only read by key.\<close>

definition groupReadingsByFeeder :: "IFeederReading list \<Rightarrow> (string \<rightharpoonup> IFeederReading list)" where
  "groupReadingsByFeeder readings =
     fold (\<lambda>reading m.
            m(reading_feeder reading \<mapsto>
                (case m (reading_feeder reading) of None \<Rightarrow> [] | Some rs \<Rightarrow> rs) @ [reading]))
          readings Map.empty"

section \<open>Matrix Builder\<close>

text \<open>
  The reading lookup map that \<^verbatim>\<open>populateFeederData\<close> and
  \<^verbatim>\<open>addAnalysisSheetsToWorkbook\<close> build for one feeder: a later reading with the same
  formatted date replaces an earlier one.
\<close>

definition buildReadingMap :: "(int \<Rightarrow> string) \<Rightarrow> IFeederReading list \<Rightarrow> (string \<rightharpoonup> IFeederReading)" where
  "buildReadingMap formatDate readings =
     fold (\<lambda>reading m. m(formatDate (reading_date reading) \<mapsto> reading)) readings Map.empty"

text \<open>
  \<^verbatim>\<open>populateDateSpecificData\<close>: the loop over \<open>dates\<close>, with the loop index \<open>i\<close> and
  \<open>currentPrevActual\<close>. The three values of a day are the ones written to the columns
  \<open>9 + 4 * i\<close>, \<open>10 + 4 * i\<close> and \<open>11 + 4 * i\<close> of the feeder's row.
\<close>

fun populateDateSpecificData_loop ::
  "(int \<Rightarrow> string) \<Rightarrow> PopulatedFeeder \<Rightarrow> (string \<rightharpoonup> IFeederReading) \<Rightarrow> nat \<Rightarrow> real \<Rightarrow> int list
     \<Rightarrow> ReportRow list" where
  "populateDateSpecificData_loop formatDate feeder readingMap i currentPrevActual [] = []"
| "populateDateSpecificData_loop formatDate feeder readingMap i currentPrevActual (d # rest) =
     (let dateStr = formatDate d;
          reading = readingMap dateStr;
          nomination = dailyEnergyUptake feeder * real (i + 1);
          actual = (case reading of Some r \<Rightarrow> cumulativeEnergyConsumption r
                    | None \<Rightarrow> currentPrevActual);
          variance = actual - nomination
      in \<lparr>row_nomination = nomination, row_actual = actual, row_variance = variance\<rparr>
         # populateDateSpecificData_loop formatDate feeder readingMap (i + 1) actual rest)"

definition populateDateSpecificData ::
  "(int \<Rightarrow> string) \<Rightarrow> PopulatedFeeder \<Rightarrow> int list \<Rightarrow> (string \<rightharpoonup> IFeederReading) \<Rightarrow> real
     \<Rightarrow> ReportRow list" where
  "populateDateSpecificData formatDate feeder dates readingMap prevActual =
     populateDateSpecificData_loop formatDate feeder readingMap 0 prevActual dates"

text \<open>
  The matrix row of one feeder as \<^verbatim>\<open>populateFeederData\<close> produces it: the lookup map of
  the feeder's readings, and \<^verbatim>\<open>prevActual = 0\<close>.
\<close>

definition feederMatrixRow ::
  "(int \<Rightarrow> string) \<Rightarrow> PopulatedFeeder \<Rightarrow> int list \<Rightarrow> IFeederReading list \<Rightarrow> ReportRow list" where
  "feederMatrixRow formatDate feeder dates readings =
     populateDateSpecificData formatDate feeder dates (buildReadingMap formatDate readings) 0"

text \<open>
  The resolved actual as section 4.2 of the specification words it, for comparison with
  the loop: the value of the feeder's reading dated that day if one exists, otherwise the
  previous day's resolved actual, and 0 on a first day without a reading.
\<close>

definition spec_readingOn :: "(int \<Rightarrow> string) \<Rightarrow> IFeederReading list \<Rightarrow> int \<Rightarrow> IFeederReading option" where
  "spec_readingOn formatDate readings d =
     find (\<lambda>r. formatDate (reading_date r) = formatDate d) readings"

fun spec_actual :: "(int \<Rightarrow> string) \<Rightarrow> IFeederReading list \<Rightarrow> int list \<Rightarrow> nat \<Rightarrow> real" where
  "spec_actual formatDate readings dates 0 =
     (case spec_readingOn formatDate readings (dates ! 0) of
        Some r \<Rightarrow> cumulativeEnergyConsumption r | None \<Rightarrow> 0)"
| "spec_actual formatDate readings dates (Suc i) =
     (case spec_readingOn formatDate readings (dates ! Suc i) of
        Some r \<Rightarrow> cumulativeEnergyConsumption r
      | None \<Rightarrow> spec_actual formatDate readings dates i)"

section \<open>Compliance Classifier\<close>

text \<open>
  The rule block that \<^verbatim>\<open>runComplianceChecks\<close> (report controller) and
  \<^verbatim>\<open>addAnalysisSheetsToWorkbook\<close> both contain, with the same conditions in the same
  order: the labels pushed to \<^verbatim>\<open>failedChecks\<close> for a positive \<open>actual\<close>.
\<close>

definition complianceRules :: "real \<Rightarrow> int \<Rightarrow> real \<Rightarrow> real \<Rightarrow> real \<Rightarrow> string list" where
  "complianceRules dailyUptake dayIndex nomination actual previousDayActual =
     (if dayIndex > 1 \<and> actual \<le> previousDayActual then [''Actual D-0 < Actual D-1''] else [])
     @ (if actual < 0.7 * nomination then [''< 70% Nom'']
        else if actual > 1.3 * nomination then [''> 130% Nom''] else [])
     @ (if dayIndex > 1 then
          (let dailyActual = actual - previousDayActual
           in if dailyActual < 0.7 * dailyUptake then [''< 70% Daily Uptake'']
              else if dailyActual > 1.3 * dailyUptake then [''> 130% Daily Uptake''] else [])
        else [])"

text \<open>
  The previous day's actual of \<^verbatim>\<open>runComplianceChecks\<close> (the block under
  \<^verbatim>\<open>// Get previous day actual\<close>); \<open>lastDate\<close> is the last element of \<open>dates\<close>, and
  \<^verbatim>\<open>setUTCDate(getUTCDate() - 1)\<close> moves a date back by one day.
\<close>

definition previousDayActual ::
  "(int \<Rightarrow> string) \<Rightarrow> (string \<rightharpoonup> IFeederReading) \<Rightarrow> int list \<Rightarrow> real \<Rightarrow> real" where
  "previousDayActual formatDate readingMap dates prevActual =
     (if length dates > 1 then
        (let prevDate = last dates - msPerDay
         in case readingMap (formatDate prevDate) of
              Some prevReading \<Rightarrow> cumulativeEnergyConsumption prevReading
            | None \<Rightarrow> 0)
      else prevActual)"

text \<open>
  \<^verbatim>\<open>runComplianceChecks\<close>. With no date at all \<^verbatim>\<open>dates[dates.length - 1]\<close> is
  \<^verbatim>\<open>undefined\<close> and is handed to \<^verbatim>\<open>formatDate\<close>; that call is outside this model and
  is the result \<open>None\<close>.
\<close>

definition runComplianceChecks ::
  "(int \<Rightarrow> string) \<Rightarrow> PopulatedFeeder \<Rightarrow> (string \<rightharpoonup> IFeederReading) \<Rightarrow> int list \<Rightarrow> real
     \<Rightarrow> string list option" where
  "runComplianceChecks formatDate feeder readingMap dates prevActual =
     (if dates = [] then None
      else
        (let lastDate = last dates;
             lastDateStr = formatDate lastDate
         in case readingMap lastDateStr of
              None \<Rightarrow> Some []
            | Some lastReading \<Rightarrow>
                if cumulativeEnergyConsumption lastReading \<le> 0 then Some []
                else
                  (let dayIndex = int (length dates);
                       nomination = dailyEnergyUptake feeder * real_of_int dayIndex;
                       actual = cumulativeEnergyConsumption lastReading
                   in Some (complianceRules (dailyEnergyUptake feeder) dayIndex nomination actual
                              (previousDayActual formatDate readingMap dates prevActual)))))"

section \<open>Report controller: \<^verbatim>\<open>populateFeederData\<close>\<close>

text \<open>
  The display name of a populated reference, as the report controller resolves it:
  the \<^verbatim>\<open>name\<close> of an object that is not \<^verbatim>\<open>null\<close>, a string itself, \<^verbatim>\<open>'Unknown'\<close>
  otherwise.
\<close>

definition refName :: "nameRef \<Rightarrow> string" where
  "refName r =
     (case r of NameObject n \<Rightarrow> n | NameString s \<Rightarrow> s | NameNull \<Rightarrow> ''Unknown''
      | NameUndefined \<Rightarrow> ''Unknown'')"

text \<open>
  Appending a value to the list stored under a key, the key entering at the end when it
  is new: \<^verbatim>\<open>if (!m.has(k)) m.set(k, []); m.get(k).push(v)\<close>.
\<close>

fun pushUnder :: "string \<Rightarrow> 'a \<Rightarrow> (string \<times> 'a list) list \<Rightarrow> (string \<times> 'a list) list" where
  "pushUnder k v [] = [(k, [v])]"
| "pushUnder k v ((k', vs) # rest) =
     (if k = k' then (k', vs @ [v]) # rest else (k', vs) # pushUnder k v rest)"

definition feedersByRegion :: "PopulatedFeeder list \<Rightarrow> (string \<times> PopulatedFeeder list) list" where
  "feedersByRegion feeders =
     foldl (\<lambda>m feeder. pushUnder (refName (feeder_region feeder)) feeder m) [] feeders"

text \<open>
  What \<^verbatim>\<open>populateFeederData\<close> leaves behind: the lines of the main sheet (a banner per
  region, a line per feeder with its serial and its matrix row) and the failed-checks
  summary, with the running \<^verbatim>\<open>rowIndex\<close> and \<^verbatim>\<open>feederSerial\<close>.
\<close>

datatype sheetLine =
  RegionBanner nat string
| FeederLine nat nat PopulatedFeeder "ReportRow list"

record populateState =
  rowIndex :: nat
  feederSerial :: nat
  sheetLines :: "sheetLine list"
  failedChecksSummary :: "FailedChecks list"

text \<open>\<^verbatim>\<open>readingsByFeeder.get(String(feeder._id)) || []\<close> of the report controller.\<close>

definition readingsOf :: "(string \<rightharpoonup> IFeederReading list) \<Rightarrow> PopulatedFeeder \<Rightarrow> IFeederReading list" where
  "readingsOf readingsByFeeder feeder =
     (case readingsByFeeder (feeder_id feeder) of Some rs \<Rightarrow> rs | None \<Rightarrow> [])"

text \<open>The body of the loop over the feeders of a region.\<close>

definition populateFeeder ::
  "(int \<Rightarrow> string) \<Rightarrow> int list \<Rightarrow> (string \<rightharpoonup> IFeederReading list) \<Rightarrow> bool \<Rightarrow> string
     \<Rightarrow> populateState \<Rightarrow> PopulatedFeeder \<Rightarrow> populateState option" where
  "populateFeeder formatDate dates readingsByFeeder includeCompliance regionName st feeder =
     (let readings = readingsOf readingsByFeeder feeder;
          readingMap = buildReadingMap formatDate readings;
          prevActual = 0;
          cells = populateDateSpecificData formatDate feeder dates readingMap prevActual;
          st1 = st\<lparr>sheetLines := sheetLines st @ [FeederLine (rowIndex st) (feederSerial st) feeder cells],
                   feederSerial := feederSerial st + 1\<rparr>
      in if includeCompliance then
           (case runComplianceChecks formatDate feeder readingMap dates prevActual of
              None \<Rightarrow> None
            | Some feederFailedChecks \<Rightarrow>
                Some ((if length feederFailedChecks > 0
                       then st1\<lparr>failedChecksSummary := failedChecksSummary st1 @
                                  [\<lparr>fc_feederName = feeder_name feeder,
                                    fc_businessHub = refName (feeder_businessHub feeder),
                                    fc_region = regionName,
                                    fc_date = formatDate (last dates),
                                    fc_failedChecks = feederFailedChecks\<rparr>]\<rparr>
                       else st1)\<lparr>rowIndex := rowIndex st + 1\<rparr>))
         else Some (st1\<lparr>rowIndex := rowIndex st + 1\<rparr>))"

fun populateFeeders ::
  "(int \<Rightarrow> string) \<Rightarrow> int list \<Rightarrow> (string \<rightharpoonup> IFeederReading list) \<Rightarrow> bool \<Rightarrow> string
     \<Rightarrow> populateState \<Rightarrow> PopulatedFeeder list \<Rightarrow> populateState option" where
  "populateFeeders formatDate dates readingsByFeeder includeCompliance regionName st [] = Some st"
| "populateFeeders formatDate dates readingsByFeeder includeCompliance regionName st (feeder # rest) =
     (case populateFeeder formatDate dates readingsByFeeder includeCompliance regionName st feeder of
        None \<Rightarrow> None
      | Some st' \<Rightarrow>
          populateFeeders formatDate dates readingsByFeeder includeCompliance regionName st' rest)"

fun populateRegions ::
  "(int \<Rightarrow> string) \<Rightarrow> int list \<Rightarrow> (string \<rightharpoonup> IFeederReading list) \<Rightarrow> bool
     \<Rightarrow> populateState \<Rightarrow> (string \<times> PopulatedFeeder list) list \<Rightarrow> populateState option" where
  "populateRegions formatDate dates readingsByFeeder includeCompliance st [] = Some st"
| "populateRegions formatDate dates readingsByFeeder includeCompliance st
     ((regionName, regionFeeders) # rest) =
     (let st1 = st\<lparr>sheetLines := sheetLines st @ [RegionBanner (rowIndex st) regionName],
                   rowIndex := rowIndex st + 1\<rparr>
      in case populateFeeders formatDate dates readingsByFeeder includeCompliance regionName st1
                regionFeeders of
           None \<Rightarrow> None
         | Some st' \<Rightarrow> populateRegions formatDate dates readingsByFeeder includeCompliance st' rest)"

definition populateFeederData ::
  "(int \<Rightarrow> string) \<Rightarrow> PopulatedFeeder list \<Rightarrow> int list \<Rightarrow> (string \<rightharpoonup> IFeederReading list) \<Rightarrow> bool
     \<Rightarrow> populateState option" where
  "populateFeederData formatDate feeders dates readingsByFeeder includeCompliance =
     populateRegions formatDate dates readingsByFeeder includeCompliance
       \<lparr>rowIndex = 5, feederSerial = 1, sheetLines = [], failedChecksSummary = []\<rparr>
       (feedersByRegion feeders)"

text \<open>\<^verbatim>\<open>Array.prototype.join\<close> on strings.\<close>

fun joinStrings :: "string \<Rightarrow> string list \<Rightarrow> string" where
  "joinStrings sep [] = []"
| "joinStrings sep [x] = x"
| "joinStrings sep (x # y # rest) = x @ sep @ joinStrings sep (y # rest)"

text \<open>
  \<^verbatim>\<open>populateFailedChecksSummary\<close> and the summary loop of
  \<^verbatim>\<open>addAnalysisSheetsToWorkbook\<close>: the cells A to E of the rows from row 6 on.
\<close>

definition populateFailedChecksSummary :: "FailedChecks list \<Rightarrow> (nat \<times> string list) list" where
  "populateFailedChecksSummary summary =
     map (\<lambda>(i, check). (6 + i, [fc_region check, fc_businessHub check, fc_feederName check,
                                 fc_date check, joinStrings '', '' (fc_failedChecks check)]))
         (enumerate 0 summary)"

section \<open>\<^verbatim>\<open>addAnalysisSheetsToWorkbook\<close>: classification and category routing\<close>

text \<open>
  \<^verbatim>\<open>dates.findIndex(p)\<close>: the first index whose element satisfies \<open>p\<close>, or \<open>-1\<close>.
\<close>

fun findIndex :: "('a \<Rightarrow> bool) \<Rightarrow> 'a list \<Rightarrow> int" where
  "findIndex p [] = - 1"
| "findIndex p (x # xs) =
     (if p x then 0 else (let r = findIndex p xs in if r < 0 then - 1 else r + 1))"

text \<open>
  \<^verbatim>\<open>readingDates.sort().slice(-1)[0]\<close>: the greatest formatted date of the feeder's
  readings in the order of strings, \<^verbatim>\<open>undefined\<close> when the feeder has no reading.
\<close>

definition lastDateStrOf :: "(int \<Rightarrow> string) \<Rightarrow> IFeederReading list \<Rightarrow> string option" where
  "lastDateStrOf formatDate readings =
     (let readingDates = map (\<lambda>r. formatDate (reading_date r)) readings
      in if readingDates = [] then None else Some (last (sort readingDates)))"

text \<open>
  The outcome of the loop body for one feeder: the target sheets of its
  \<^verbatim>\<open>copyRowToAnalysisSheet\<close> calls, in order, and what it pushes to
  \<^verbatim>\<open>failedChecksSummary\<close>.
\<close>

record feederAnalysis =
  fa_failedChecks :: "string list"
  fa_copies :: "string list"
  fa_summary :: "FailedChecks list"

definition noAnalysis :: feederAnalysis where
  "noAnalysis = \<lparr>fa_failedChecks = [], fa_copies = [], fa_summary = []\<rparr>"

text \<open>
  The name of the business hub as \<^verbatim>\<open>addAnalysisSheetsToWorkbook\<close> resolves it: the
  \<^verbatim>\<open>name\<close> of an object that is not \<^verbatim>\<open>null\<close>, \<^verbatim>\<open>'Unknown'\<close> otherwise.
\<close>

definition objectName :: "nameRef \<Rightarrow> string" where
  "objectName r = (case r of NameObject n \<Rightarrow> n | _ \<Rightarrow> ''Unknown'')"

text \<open>
  The loop body of \<^verbatim>\<open>addAnalysisSheetsToWorkbook\<close> for one feeder. Every
  \<^verbatim>\<open>failedChecks.push(label)\<close> of the source is followed by a
  \<^verbatim>\<open>copyRowToAnalysisSheet\<close> to the sheet of the same name, so the copies start with
  the failed checks. \<^verbatim>\<open>lastDateStr && lastReading\<close> asks for a non-empty string and
  a reading stored under it.
\<close>

definition analyseFeeder ::
  "(int \<Rightarrow> string) \<Rightarrow> int list \<Rightarrow> PopulatedFeeder \<Rightarrow> IFeederReading list \<Rightarrow> string
     \<Rightarrow> feederAnalysis" where
  "analyseFeeder formatDate dates feeder readings regionName =
     (let businessHubName = objectName (feeder_businessHub feeder);
          readingMap = buildReadingMap formatDate readings
      in case lastDateStrOf formatDate readings of
           None \<Rightarrow> noAnalysis
         | Some lastDateStr \<Rightarrow>
             (case (if lastDateStr \<noteq> [] then readingMap lastDateStr else None) of
                None \<Rightarrow> noAnalysis
              | Some lastReading \<Rightarrow>
                  (let prevDateStr = formatDate (reading_date lastReading - msPerDay);
                       previousDayActual =
                         (case readingMap prevDateStr of
                            Some prevReading \<Rightarrow> cumulativeEnergyConsumption prevReading
                          | None \<Rightarrow> 0);
                       dayIndex = findIndex (\<lambda>d. formatDate d = lastDateStr) dates + 1;
                       nomination = dailyEnergyUptake feeder * real_of_int dayIndex;
                       actual = cumulativeEnergyConsumption lastReading;
                       variance = actual - nomination;
                       dailyUptake = dailyEnergyUptake feeder
                   in if actual > 0 then
                        (let failedChecks =
                               complianceRules dailyUptake dayIndex nomination actual previousDayActual
                         in \<lparr>fa_failedChecks = failedChecks,
                             fa_copies = failedChecks
                               @ (if variance \<ge> 0 then [''Positive Variance''] else [])
                               @ (if length failedChecks = 0 then [''No Flags''] else []),
                             fa_summary =
                               (if length failedChecks = 0 then []
                                else [\<lparr>fc_feederName = feeder_name feeder,
                                       fc_businessHub = businessHubName,
                                       fc_region = regionName,
                                       fc_date = lastDateStr,
                                       fc_failedChecks = failedChecks\<rparr>])\<rparr>)
                      else noAnalysis)))"

text \<open>
  \<^verbatim>\<open>readingsByFeeder\<close> and \<^verbatim>\<open>feedersByRegion\<close> of \<^verbatim>\<open>addAnalysisSheetsToWorkbook\<close>
  are plain objects, and a plain object inherits the members of \<^verbatim>\<open>Object.prototype\<close>.
  Reading \<^verbatim>\<open>obj[k]\<close> where \<open>k\<close> is the name of such a member and the object has no
  property \<open>k\<close> of its own yields the inherited member: a function, or the prototype
  itself for \<^verbatim>\<open>'__proto__'\<close>. It is truthy and has neither \<^verbatim>\<open>push\<close> nor
  \<^verbatim>\<open>forEach\<close>, so the call of either raises a \<^verbatim>\<open>TypeError\<close>.
\<close>

definition prototypeMembers :: "string list" where
  "prototypeMembers =
     [''constructor'', ''__defineGetter__'', ''__defineSetter__'', ''hasOwnProperty'',
      ''__lookupGetter__'', ''__lookupSetter__'', ''isPrototypeOf'', ''propertyIsEnumerable'',
      ''toString'', ''valueOf'', ''__proto__'', ''toLocaleString'']"

datatype analysisError = TypeError

text \<open>
  \<^verbatim>\<open>if (!obj[k]) obj[k] = []; obj[k].push(v)\<close> on a plain object whose own properties
  are the association list \<open>obj\<close>, in insertion order: under the name of an inherited
  member no array is stored and \<^verbatim>\<open>push\<close> is not a function.
\<close>

definition pushUnderObject ::
  "string \<Rightarrow> 'a \<Rightarrow> (string \<times> 'a list) list \<Rightarrow> analysisError + (string \<times> 'a list) list" where
  "pushUnderObject k v obj =
     (if k \<in> set prototypeMembers then Inl TypeError else Inr (pushUnder k v obj))"

text \<open>
  The grouping of the readings under \<^verbatim>\<open>String(reading.feeder)\<close>
  (\<^verbatim>\<open>allReadings.forEach\<close>), starting from the empty object.
\<close>

fun readingsByFeederObject ::
  "IFeederReading list \<Rightarrow> (string \<times> IFeederReading list) list
     \<Rightarrow> analysisError + (string \<times> IFeederReading list) list" where
  "readingsByFeederObject [] obj = Inr obj"
| "readingsByFeederObject (reading # rest) obj =
     (case pushUnderObject (reading_feeder reading) reading obj of
        Inl e \<Rightarrow> Inl e
      | Inr obj' \<Rightarrow> readingsByFeederObject rest obj')"

text \<open>
  \<^verbatim>\<open>typeof feeder.region === 'object' ? feeder.region.name : 'Unknown'\<close>: the type of
  \<^verbatim>\<open>null\<close> is \<^verbatim>\<open>'object'\<close>, and reading \<^verbatim>\<open>name\<close> from \<^verbatim>\<open>null\<close> raises a
  \<^verbatim>\<open>TypeError\<close>.
\<close>

definition regionNameOf :: "nameRef \<Rightarrow> analysisError + string" where
  "regionNameOf region =
     (case region of
        NameObject n \<Rightarrow> Inr n
      | NameNull \<Rightarrow> Inl TypeError
      | NameString s \<Rightarrow> Inr ''Unknown''
      | NameUndefined \<Rightarrow> Inr ''Unknown'')"

text \<open>The grouping of the feeders by region (\<^verbatim>\<open>feeders.forEach\<close>).\<close>

fun feedersByRegionObject ::
  "PopulatedFeeder list \<Rightarrow> (string \<times> PopulatedFeeder list) list
     \<Rightarrow> analysisError + (string \<times> PopulatedFeeder list) list" where
  "feedersByRegionObject [] obj = Inr obj"
| "feedersByRegionObject (feeder # rest) obj =
     (case regionNameOf (feeder_region feeder) of
        Inl e \<Rightarrow> Inl e
      | Inr regionName \<Rightarrow>
          (case pushUnderObject regionName feeder obj of
             Inl e \<Rightarrow> Inl e
           | Inr obj' \<Rightarrow> feedersByRegionObject rest obj'))"

text \<open>
  \<^verbatim>\<open>Object.keys\<close> of the object \<^verbatim>\<open>feedersByRegion\<close>: the keys that are array indices
  (canonical decimal numerals below \<open>2\<^sup>3\<^sup>2 - 1\<close>) in ascending numeric order, then the
  other keys in insertion order.
\<close>

definition digitsValue :: "string \<Rightarrow> int" where
  "digitsValue s = foldl (\<lambda>n c. n * 10 + (of_char c - 48)) 0 s"

definition isArrayIndex :: "string \<Rightarrow> bool" where
  "isArrayIndex s \<longleftrightarrow>
     s \<noteq> [] \<and> list_all (\<lambda>c. CHR ''0'' \<le> c \<and> c \<le> CHR ''9'') s
     \<and> (s = ''0'' \<or> hd s \<noteq> CHR ''0'') \<and> digitsValue s < 4294967295"

definition objectKeys :: "(string \<times> 'a) list \<Rightarrow> string list" where
  "objectKeys obj =
     sort_key digitsValue (filter isArrayIndex (map fst obj))
     @ filter (\<lambda>k. \<not> isArrayIndex k) (map fst obj)"

text \<open>
  The regions in the order of \<^verbatim>\<open>for (const regionName of Object.keys(feedersByRegion))\<close>,
  each with \<^verbatim>\<open>feedersByRegion[regionName]\<close>.
\<close>

definition analysisRegions ::
  "(string \<times> PopulatedFeeder list) list \<Rightarrow> (string \<times> PopulatedFeeder list) list" where
  "analysisRegions obj =
     map (\<lambda>regionName. (regionName, (case map_of obj regionName of Some fs \<Rightarrow> fs | None \<Rightarrow> [])))
         (objectKeys obj)"

text \<open>
  \<^verbatim>\<open>readingsByFeeder[String(feeder._id)] || []\<close>, on which \<^verbatim>\<open>forEach\<close> and \<^verbatim>\<open>map\<close>
  are called: the array stored under the key, the empty array for an unknown key, and for
  the name of an inherited member the member itself.
\<close>

definition readingsOfObject ::
  "(string \<times> IFeederReading list) list \<Rightarrow> PopulatedFeeder \<Rightarrow> analysisError + IFeederReading list" where
  "readingsOfObject obj feeder =
     (case map_of obj (feeder_id feeder) of
        Some rs \<Rightarrow> Inr rs
      | None \<Rightarrow> if feeder_id feeder \<in> set prototypeMembers then Inl TypeError else Inr [])"

text \<open>
  The loops over the regions and their feeders: the running \<^verbatim>\<open>rowIndex\<close>, the
  \<^verbatim>\<open>copyRowToAnalysisSheet\<close> calls made so far (target sheet, copied row of the main
  sheet) and \<^verbatim>\<open>failedChecksSummary\<close>.
\<close>

record analysisState =
  aa_rowIndex :: nat
  aa_copies :: "(string \<times> nat) list"
  aa_summary :: "FailedChecks list"

text \<open>The body of the loop over the feeders of a region, with the \<^verbatim>\<open>rowIndex++\<close> that ends it.\<close>

definition analysisStep ::
  "(int \<Rightarrow> string) \<Rightarrow> int list \<Rightarrow> (string \<times> IFeederReading list) list \<Rightarrow> string
     \<Rightarrow> analysisState \<Rightarrow> PopulatedFeeder \<Rightarrow> analysisError + analysisState" where
  "analysisStep formatDate dates readingsByFeeder regionName st feeder =
     (case readingsOfObject readingsByFeeder feeder of
        Inl e \<Rightarrow> Inl e
      | Inr readings \<Rightarrow>
          (let fa = analyseFeeder formatDate dates feeder readings regionName
           in Inr \<lparr>aa_rowIndex = aa_rowIndex st + 1,
                   aa_copies = aa_copies st @ map (\<lambda>sheet. (sheet, aa_rowIndex st)) (fa_copies fa),
                   aa_summary = aa_summary st @ fa_summary fa\<rparr>))"

fun analysisFeeders ::
  "(int \<Rightarrow> string) \<Rightarrow> int list \<Rightarrow> (string \<times> IFeederReading list) list \<Rightarrow> string
     \<Rightarrow> analysisState \<Rightarrow> PopulatedFeeder list \<Rightarrow> analysisError + analysisState" where
  "analysisFeeders formatDate dates readingsByFeeder regionName st [] = Inr st"
| "analysisFeeders formatDate dates readingsByFeeder regionName st (feeder # rest) =
     (case analysisStep formatDate dates readingsByFeeder regionName st feeder of
        Inl e \<Rightarrow> Inl e
      | Inr st' \<Rightarrow> analysisFeeders formatDate dates readingsByFeeder regionName st' rest)"

text \<open>The loop over the regions; its body starts with the \<^verbatim>\<open>rowIndex++\<close> for the banner.\<close>

fun analysisRegionsLoop ::
  "(int \<Rightarrow> string) \<Rightarrow> int list \<Rightarrow> (string \<times> IFeederReading list) list
     \<Rightarrow> analysisState \<Rightarrow> (string \<times> PopulatedFeeder list) list \<Rightarrow> analysisError + analysisState" where
  "analysisRegionsLoop formatDate dates readingsByFeeder st [] = Inr st"
| "analysisRegionsLoop formatDate dates readingsByFeeder st ((regionName, regionFeeders) # rest) =
     (case analysisFeeders formatDate dates readingsByFeeder regionName
             (st\<lparr>aa_rowIndex := aa_rowIndex st + 1\<rparr>) regionFeeders of
        Inl e \<Rightarrow> Inl e
      | Inr st' \<Rightarrow> analysisRegionsLoop formatDate dates readingsByFeeder st' rest)"

text \<open>
  \<^verbatim>\<open>addAnalysisSheetsToWorkbook(workbook, feeders, dates)\<close>, followed on the path where
  the workbook has the sheet \<^verbatim>\<open>'Feeder Performance'\<close>. \<open>allReadings\<close> is the answer of
  the reading store to the query for the range. The function is asynchronous; an error
  raised in it (\<open>Inl\<close>) rejects the promise it returns.
\<close>

definition addAnalysisSheetsToWorkbook ::
  "(int \<Rightarrow> string) \<Rightarrow> PopulatedFeeder list \<Rightarrow> int list \<Rightarrow> IFeederReading list
     \<Rightarrow> analysisError + analysisState" where
  "addAnalysisSheetsToWorkbook formatDate feeders dates allReadings =
     (case readingsByFeederObject allReadings [] of
        Inl e \<Rightarrow> Inl e
      | Inr readingsByFeeder \<Rightarrow>
          (case feedersByRegionObject feeders [] of
             Inl e \<Rightarrow> Inl e
           | Inr regions \<Rightarrow>
               analysisRegionsLoop formatDate dates readingsByFeeder
                 \<lparr>aa_rowIndex = 5, aa_copies = [], aa_summary = []\<rparr>
                 (analysisRegions regions)))"

section \<open>Report Orchestrator: the region and business-hub filters\<close>

text \<open>
  The collaborators of the handlers: \<^verbatim>\<open>Region.findOne\<close> and \<^verbatim>\<open>BusinessHub.findOne\<close> with
  the case-insensitive name pattern (the identifier of the document found, if any), and
  \<^verbatim>\<open>getFeedersWithPopulatedData(filter)\<close>.
\<close>

record feederFilter =
  filter_region :: "string option"
  filter_businessHub :: "string option"

record collaborators =
  findRegion :: "string \<Rightarrow> string option"
  findBusinessHub :: "string \<Rightarrow> string option"
  findFeeders :: "feederFilter \<Rightarrow> PopulatedFeeder list"

text \<open>
  What a handler does that can be observed: the queries for feeders and for readings, the
  rendering of a report for a list of feeders over a list of dates, and the response.
  The handlers are followed on the path where the template loads and the delivery
  succeeds.
\<close>

datatype event =
  FeedersFetched feederFilter
| ReadingsFetched int int
| ReportRendered "PopulatedFeeder list" "int list"

datatype response = Json nat string | Attachment

datatype dateParam = NoDate | BadDate | GoodDate int

text \<open>
  A request parameter that is a string: an absent parameter and the empty string are both
  falsy in the source, and both are the empty string here.
\<close>

record dateReportQuery =
  q_date :: dateParam
  q_region :: string
  q_businessHub :: string

definition quoted :: "string \<Rightarrow> string" where
  "quoted s = [CHR 0x27] @ s @ [CHR 0x27]"

definition generateSpecificDateReport :: "collaborators \<Rightarrow> dateReportQuery \<Rightarrow> event list \<times> response" where
  "generateSpecificDateReport env q =
     (case q_date q of
        NoDate \<Rightarrow> ([], Json 400 ''Date is required'')
      | BadDate \<Rightarrow> ([], Json 400 ''Invalid date format'')
      | GoodDate reportDate \<Rightarrow>
          (let startDate = utcMidnight reportDate;
               endDate = utcMidnight reportDate + 86399999
           in if q_region q \<noteq> [] \<and> findRegion env (q_region q) = None
              then ([], Json 404 (''Region '' @ quoted (q_region q) @ '' not found''))
              else if q_businessHub q \<noteq> [] \<and> findBusinessHub env (q_businessHub q) = None
              then ([], Json 404 (''Business Hub '' @ quoted (q_businessHub q) @ '' not found''))
              else
                (let feederFilter =
                       \<lparr>filter_region =
                          (if q_region q \<noteq> [] then findRegion env (q_region q) else None),
                        filter_businessHub =
                          (if q_businessHub q \<noteq> [] then findBusinessHub env (q_businessHub q)
                           else None)\<rparr>;
                     feeders = findFeeders env feederFilter
                 in if length feeders = 0
                    then ([FeedersFetched feederFilter],
                          Json 404 ''No feeders found with the specified criteria'')
                    else ([FeedersFetched feederFilter, ReadingsFetched startDate endDate,
                           ReportRendered feeders [reportDate]], Attachment))))"

text \<open>
  The filter of \<^verbatim>\<open>sendReportByEmail\<close> and \<^verbatim>\<open>generateCustomReport\<close>:
  \<^verbatim>\<open>if (regionDoc) feederFilter.region = regionDoc._id\<close>, and the same for the hub.
\<close>

definition lenientFilter :: "collaborators \<Rightarrow> string \<Rightarrow> string \<Rightarrow> feederFilter" where
  "lenientFilter env region businessHub =
     \<lparr>filter_region = (if region \<noteq> [] then findRegion env region else None),
      filter_businessHub = (if businessHub \<noteq> [] then findBusinessHub env businessHub else None)\<rparr>"

text \<open>
  \<^verbatim>\<open>sendReportByEmail\<close>: the dates of the body are the parsed dates, \<open>None\<close> for an
  absent one.
\<close>

record emailRequest =
  e_startDate :: "int option"
  e_endDate :: "int option"
  e_date :: "int option"
  e_region :: string
  e_businessHub :: string
  e_email :: string

definition sendReportByEmail :: "collaborators \<Rightarrow> emailRequest \<Rightarrow> event list \<times> response" where
  "sendReportByEmail env body =
     (if e_email body = [] then ([], Json 400 ''Recipient email is required'')
      else
        (case (case (e_startDate body, e_endDate body) of
                 (Some start, Some end) \<Rightarrow> Some (start, end)
               | _ \<Rightarrow> (case e_date body of Some date \<Rightarrow> Some (date, date) | None \<Rightarrow> None)) of
           None \<Rightarrow> ([], Json 400 ''startDate/endDate or date is required'')
         | Some (startD, endD) \<Rightarrow>
             (let feederFilter = lenientFilter env (e_region body) (e_businessHub body);
                  feeders = findFeeders env feederFilter
              in if length feeders = 0
                 then ([FeedersFetched feederFilter],
                       Json 404 ''No feeders found with the specified criteria'')
                 else ([FeedersFetched feederFilter, ReadingsFetched startD endD,
                        ReportRendered feeders (getDatesInRange startD endD)],
                       Json 200 ''Report sent successfully!''))))"

record customReportQuery =
  c_reportType :: string
  c_startDate :: "int option"
  c_endDate :: "int option"
  c_region :: string
  c_businessHub :: string

definition generateCustomReport :: "collaborators \<Rightarrow> customReportQuery \<Rightarrow> event list \<times> response" where
  "generateCustomReport env q =
     (case (c_reportType q \<noteq> [], c_startDate q, c_endDate q) of
        (True, Some start, Some end) \<Rightarrow>
          (let feederFilter = lenientFilter env (c_region q) (c_businessHub q);
               feeders = findFeeders env feederFilter
           in if length feeders = 0
              then ([FeedersFetched feederFilter],
                    Json 404 ''No feeders found with the specified criteria'')
              else ([FeedersFetched feederFilter, ReadingsFetched start end,
                     ReportRendered feeders (getDatesInRange start end)], Attachment))
      | _ \<Rightarrow> ([], Json 400 ''reportType, startDate, and endDate are required''))"

section \<open>The feeders of a run and what each of them contributes\<close>

text \<open>
  The feeders in the order in which the loops over the regions and their feeders reach
  them, each with the name of the region it is processed under.
\<close>

definition processingOrder :: "(string \<times> PopulatedFeeder list) list \<Rightarrow> (string \<times> PopulatedFeeder) list" where
  "processingOrder groups = concat (map (\<lambda>(regionName, fs). map (Pair regionName) fs) groups)"

text \<open>
  What the loop body of \<^verbatim>\<open>populateFeederData\<close> pushes to \<^verbatim>\<open>failedChecksSummary\<close> for one
  feeder when the compliance checks are requested.
\<close>

definition feederSummary ::
  "(int \<Rightarrow> string) \<Rightarrow> int list \<Rightarrow> (string \<rightharpoonup> IFeederReading list) \<Rightarrow> string \<Rightarrow> PopulatedFeeder
     \<Rightarrow> FailedChecks list" where
  "feederSummary formatDate dates readingsByFeeder regionName feeder =
     (case runComplianceChecks formatDate feeder
             (buildReadingMap formatDate (readingsOf readingsByFeeder feeder)) dates 0 of
        None \<Rightarrow> []
      | Some feederFailedChecks \<Rightarrow>
          if length feederFailedChecks > 0
          then [\<lparr>fc_feederName = feeder_name feeder,
                 fc_businessHub = refName (feeder_businessHub feeder),
                 fc_region = regionName,
                 fc_date = formatDate (last dates),
                 fc_failedChecks = feederFailedChecks\<rparr>]
          else [])"

text \<open>The feeders that have a line on the main sheet, in the order of the lines.\<close>

fun lineFeeders :: "sheetLine list \<Rightarrow> PopulatedFeeder list" where
  "lineFeeders [] = []"
| "lineFeeders (RegionBanner row regionName # rest) = lineFeeders rest"
| "lineFeeders (FeederLine row serial feeder cells # rest) = feeder # lineFeeders rest"

section \<open>Inputs of the worked examples\<close>

text \<open>
  A day-granular \<^verbatim>\<open>formatDate\<close> for the first days of the epoch, and a feeder with a
  daily uptake of 100, used where a property is evaluated on concrete input.
\<close>

definition sampleFormatDate :: "int \<Rightarrow> string" where
  "sampleFormatDate t =
     (if t < 86400000 then ''1970-01-01''
      else if t < 172800000 then ''1970-01-02''
      else if t < 259200000 then ''1970-01-03''
      else ''1970-01-04'')"

definition sampleFeeder :: PopulatedFeeder where
  "sampleFeeder =
     \<lparr>feeder_id = ''f1'', feeder_name = ''Feeder 1'', feeder_businessHub = NameObject ''Hub 1'',
      feeder_region = NameObject ''Region 1'', dailyEnergyUptake = 100\<rparr>"

definition sampleFeeder2 :: PopulatedFeeder where
  "sampleFeeder2 =
     \<lparr>feeder_id = ''f2'', feeder_name = ''Feeder 2'', feeder_businessHub = NameObject ''Hub 1'',
      feeder_region = NameObject ''Region 1'', dailyEnergyUptake = 100\<rparr>"

definition sampleReading :: "int \<Rightarrow> real \<Rightarrow> IFeederReading" where
  "sampleReading day v =
     \<lparr>reading_date = day * 86400000, reading_feeder = ''f1'', cumulativeEnergyConsumption = v\<rparr>"

section \<open>Column addresses: the two conversions\<close>

subsection \<open>The number of binary digits\<close>

lemma bitLength_bounds:
  "0 < m \<Longrightarrow> 2 ^ (bitLength m - 1) \<le> m \<and> m < 2 ^ bitLength m"
proof (induction m rule: bitLength.induct)
  case (1 m)
  show ?case
  proof (cases "m div 2 = 0")
    case True
    with 1(2) have "m = 1" by presburger
    then show ?thesis by (simp add: bitLength.simps [of 1] bitLength.simps [of 0])
  next
    case False
    with 1(2) have pos: "0 < m div 2" by presburger
    from 1(1) [OF _ pos] 1(2)
    have ih: "2 ^ (bitLength (m div 2) - 1) \<le> m div 2" "m div 2 < 2 ^ bitLength (m div 2)"
      by auto
    have bl: "bitLength m = Suc (bitLength (m div 2))"
      using 1(2) by (subst bitLength.simps) simp
    have "0 < bitLength (m div 2)"
      using pos by (subst bitLength.simps) simp
    then obtain k where k: "bitLength (m div 2) = Suc k" by (cases "bitLength (m div 2)") auto
    have "2 * 2 ^ k \<le> 2 * (m div 2)" using ih(1) k by simp
    also have "\<dots> \<le> m" by presburger
    finally have lo: "2 ^ (bitLength m - 1) \<le> m" using bl k by simp
    have "m < 2 * (m div 2) + 2" by presburger
    also have "\<dots> \<le> 2 * 2 ^ bitLength (m div 2)" using ih(2) by simp
    finally have hi: "m < 2 ^ bitLength m" using bl by simp
    from lo hi show ?thesis by simp
  qed
qed

lemma bitLength_le:
  assumes "0 \<le> m" "m < 2 ^ n"
  shows "bitLength m \<le> n"
proof (cases "m = 0")
  case True
  then show ?thesis by (simp add: bitLength.simps [of 0])
next
  case False
  with assms have "0 < m" by simp
  from bitLength_bounds [OF this] have "2 ^ (bitLength m - 1) \<le> m" by simp
  with assms(2) have "(2::int) ^ (bitLength m - 1) < 2 ^ n" by linarith
  then have "bitLength m - 1 < n" by simp
  then show ?thesis by simp
qed

lemma bitLength_ge:
  assumes "2 ^ n \<le> m"
  shows "n < bitLength m"
proof -
  have "(0::int) < 2 ^ n" by simp
  with assms have "0 < m" by linarith
  from bitLength_bounds [OF this] have "m < 2 ^ bitLength m" by simp
  with assms have "(2::int) ^ n < 2 ^ bitLength m" by linarith
  then show ?thesis by simp
qed

subsection \<open>Rounding\<close>

lemma roundNearest_exact: "\<bar>x\<bar> < 2 ^ 53 \<Longrightarrow> roundNearest x = x"
  by (simp add: roundNearest_def)

lemma roundNearest_two53: "roundNearest (2 ^ 53) = 2 ^ 53"
  by (simp add: roundNearest_def Let_def bitLength.simps)

lemma roundNearest_exact_le: "0 \<le> x \<Longrightarrow> x \<le> 2 ^ 53 \<Longrightarrow> roundNearest x = x"
  using roundNearest_exact [of x] roundNearest_two53 by (cases "x = 2 ^ 53") auto

lemma roundNearest_bounds:
  assumes "0 < x"
  shows "0 < roundNearest x \<and> roundNearest x \<le> 2 * x"
proof (cases "x < 2 ^ 53")
  case True
  with assms show ?thesis by (simp add: roundNearest_exact)
next
  case False
  define e where "e = bitLength x - 53"
  define q where "q = x div 2 ^ e"
  define r where "r = x mod 2 ^ e"
  define q' where "q' = (if 2 * r > 2 ^ e \<or> (2 * r = 2 ^ e \<and> odd q) then q + 1 else q)"
  have rn: "roundNearest x = q' * 2 ^ e"
    using False assms by (simp add: roundNearest_def Let_def e_def q_def r_def q'_def)
  from bitLength_bounds [OF assms] have lo: "2 ^ (bitLength x - 1) \<le> x" by simp
  have "e \<le> bitLength x - 1" by (simp add: e_def)
  then have "(2::int) ^ e \<le> 2 ^ (bitLength x - 1)" by (rule power_increasing) simp
  with lo have pe: "2 ^ e \<le> x" by linarith
  then have "(2::int) ^ e div 2 ^ e \<le> x div 2 ^ e" by (intro zdiv_mono1) simp_all
  then have q1: "1 \<le> q" by (simp add: q_def)
  have "x = q * 2 ^ e + r" by (simp only: q_def r_def div_mult_mod_eq)
  moreover have "0 \<le> r" by (simp add: r_def)
  ultimately have qx: "q * 2 ^ e \<le> x" by linarith
  have q'b: "q \<le> q'" "q' \<le> q + 1" by (simp_all add: q'_def)
  have "0 < q' * 2 ^ e" using q1 q'b by simp
  moreover have "q' * 2 ^ e \<le> (q + 1) * 2 ^ e" using q'b by simp
  moreover have "(q + 1) * 2 ^ e = q * 2 ^ e + 2 ^ e" by (simp add: algebra_simps)
  ultimately show ?thesis using rn qx pe by linarith
qed


subsection \<open>The quotient\<close>

lemma floorDiv26_small:
  "\<not> x < 26 \<Longrightarrow> bitLength (x div 26) - 1 \<le> 52 \<Longrightarrow>
   floorDiv26 x =
     (if 2 * ((x * 2 ^ (52 - (bitLength (x div 26) - 1))) mod 26) > 26
         \<or> (2 * ((x * 2 ^ (52 - (bitLength (x div 26) - 1))) mod 26) = 26
            \<and> odd ((x * 2 ^ (52 - (bitLength (x div 26) - 1))) div 26))
      then (x * 2 ^ (52 - (bitLength (x div 26) - 1))) div 26 + 1
      else (x * 2 ^ (52 - (bitLength (x div 26) - 1))) div 26)
     div 2 ^ (52 - (bitLength (x div 26) - 1))"
  by (simp only: floorDiv26_def Let_def if_True if_False)

lemma floorDiv26_large:
  "\<not> x < 26 \<Longrightarrow> \<not> bitLength (x div 26) - 1 \<le> 52 \<Longrightarrow>
   floorDiv26 x =
     (if 2 * (x mod (26 * 2 ^ (bitLength (x div 26) - 1 - 52))) > 26 * 2 ^ (bitLength (x div 26) - 1 - 52)
         \<or> (2 * (x mod (26 * 2 ^ (bitLength (x div 26) - 1 - 52))) = 26 * 2 ^ (bitLength (x div 26) - 1 - 52)
            \<and> odd (x div (26 * 2 ^ (bitLength (x div 26) - 1 - 52))))
      then x div (26 * 2 ^ (bitLength (x div 26) - 1 - 52)) + 1
      else x div (26 * 2 ^ (bitLength (x div 26) - 1 - 52)))
     * 2 ^ (bitLength (x div 26) - 1 - 52)"
  by (simp only: floorDiv26_def Let_def if_True if_False)

lemma floorDiv26_exact:
  assumes "0 \<le> k" "k < 2 ^ 53"
  shows "floorDiv26 (26 * k) = k"
proof (cases "k = 0")
  case True
  then show ?thesis by (simp add: floorDiv26_def)
next
  case False
  with assms have k1: "1 \<le> k" by simp
  have "bitLength k \<le> 53" using assms by (rule bitLength_le)
  then have e52: "bitLength ((26 * k) div 26) - 1 \<le> 52" by simp
  have big: "\<not> 26 * k < 26" using k1 by simp
  define s where "s = 52 - (bitLength ((26 * k) div 26) - 1)"
  have n: "(26 * k) * 2 ^ s = 26 * (k * 2 ^ s)" by simp
  have "floorDiv26 (26 * k) = (k * 2 ^ s) div 2 ^ s"
    unfolding floorDiv26_small [OF big e52] s_def [symmetric] n by simp
  then show ?thesis by simp
qed

lemma floorDiv26_bound:
  assumes "0 \<le> x"
  shows "floorDiv26 x \<le> 2 * (x div 26) + 1"
proof (cases "x < 26")
  case True
  with assms show ?thesis by (simp add: floorDiv26_def)
next
  case False
  define k where "k = x div 26"
  have k1: "1 \<le> k" using False unfolding k_def by presburger
  have xk: "26 * k \<le> x" "x < 26 * (k + 1)" unfolding k_def by presburger+
  show ?thesis
  proof (cases "bitLength (x div 26) - 1 \<le> 52")
    case True
    define s where "s = 52 - (bitLength (x div 26) - 1)"
    define q where "q = (x * 2 ^ s) div 26"
    define r where "r = (x * 2 ^ s) mod 26"
    define q' where "q' = (if 2 * r > 26 \<or> (2 * r = 26 \<and> odd q) then q + 1 else q)"
    have fl: "floorDiv26 x = q' div 2 ^ s"
      unfolding floorDiv26_small [OF False True] q'_def q_def r_def s_def ..
    have "x + 1 \<le> 26 * (k + 1)" using xk by simp
    then have "(x + 1) * 2 ^ s \<le> (26 * (k + 1)) * 2 ^ s"
      by (rule mult_right_mono) simp
    then have "(x + 1) * 2 ^ s \<le> 26 * ((k + 1) * 2 ^ s)"
      by (simp only: mult.assoc)
    moreover have "(x + 1) * 2 ^ s = x * 2 ^ s + 2 ^ s" by (simp add: algebra_simps)
    moreover have "(0::int) < 2 ^ s" by simp
    ultimately have "x * 2 ^ s < 26 * ((k + 1) * 2 ^ s)"
      by linarith
    then have "q < (k + 1) * 2 ^ s" unfolding q_def by presburger
    then have "q' \<le> (k + 1) * 2 ^ s" by (simp add: q'_def)
    then have "q' div 2 ^ s \<le> ((k + 1) * 2 ^ s) div 2 ^ s"
      by (rule zdiv_mono1) simp
    then have "q' div 2 ^ s \<le> k + 1" by simp
    with k1 fl show ?thesis unfolding k_def by linarith
  next
    case False2: False
    define s where "s = bitLength (x div 26) - 1 - 52"
    define d :: int where "d = 26 * 2 ^ s"
    define q where "q = x div d"
    define r where "r = x mod d"
    define q' where "q' = (if 2 * r > d \<or> (2 * r = d \<and> odd q) then q + 1 else q)"
    have fl: "floorDiv26 x = q' * 2 ^ s"
      unfolding floorDiv26_large [OF False False2] q'_def q_def r_def d_def s_def ..
    have dpos: "0 < d" by (simp add: d_def)
    have "x = q * d + r" by (simp only: q_def r_def div_mult_mod_eq)
    moreover have "0 \<le> r" using dpos by (simp add: r_def)
    ultimately have "q * d \<le> x" by linarith
    then have "26 * (q * 2 ^ s) \<le> x" by (simp add: d_def algebra_simps)
    then have qs: "q * 2 ^ s \<le> k" unfolding k_def by presburger
    have "0 < k" using k1 by simp
    from bitLength_bounds [OF this] have "2 ^ (bitLength k - 1) \<le> k" by simp
    moreover have "(2::int) ^ s \<le> 2 ^ (bitLength k - 1)"
      by (rule power_increasing) (simp_all add: s_def k_def)
    ultimately have se: "2 ^ s \<le> k" by linarith
    have "q' \<le> q + 1" by (simp add: q'_def)
    then have "q' * 2 ^ s \<le> (q + 1) * 2 ^ s" by (rule mult_right_mono) simp
    also have "\<dots> = q * 2 ^ s + 2 ^ s" by (simp add: algebra_simps)
    finally show ?thesis using fl qs se unfolding k_def by linarith
  qed
qed

subsection \<open>One turn of the loop\<close>

lemma loop_turn_exact:
  assumes "0 < current" "current \<le> 2 ^ 53"
  shows "roundNearest (current - 1) mod 26 = (current - 1) mod 26"
    and "floorDiv26 (roundNearest (roundNearest (current - (current - 1) mod 26) - 1))
         = (current - 1) div 26"
proof -
  define temp where "temp = (current - 1) mod 26"
  have temp_range: "0 \<le> temp" "temp < 26" by (simp_all add: temp_def)
  have "temp \<le> current - 1" unfolding temp_def using assms(1) by presburger
  then have a: "0 < current - temp" "current - temp \<le> 2 ^ 53"
    using assms temp_range by simp_all
  have r1: "roundNearest (current - 1) = current - 1"
    using assms by (intro roundNearest_exact) simp
  then show "roundNearest (current - 1) mod 26 = (current - 1) mod 26" by simp
  have r2: "roundNearest (current - temp) = current - temp"
    using a by (intro roundNearest_exact_le) simp_all
  have r3: "roundNearest (current - temp - 1) = current - temp - 1"
    using a by (intro roundNearest_exact) simp
  have "current - temp - 1 = (current - 1) - (current - 1) mod 26"
    by (simp add: temp_def)
  also have "\<dots> = 26 * ((current - 1) div 26)"
    by (rule minus_mod_eq_mult_div)
  finally have m: "current - temp - 1 = 26 * ((current - 1) div 26)" .
  have "0 \<le> (current - 1) div 26" using assms(1) by simp
  moreover have "(current - 1) div 26 < 2 ^ 53" using assms by simp
  ultimately have "floorDiv26 (26 * ((current - 1) div 26)) = (current - 1) div 26"
    by (rule floorDiv26_exact)
  then show "floorDiv26 (roundNearest (roundNearest (current - (current - 1) mod 26) - 1))
         = (current - 1) div 26"
    using r2 r3 m unfolding temp_def by simp
qed

lemma loop_dividend_nonneg:
  assumes "0 < current"
  shows "0 \<le> roundNearest (roundNearest (current - roundNearest (current - 1) mod 26) - 1)"
proof -
  define temp where "temp = roundNearest (current - 1) mod 26"
  have temp_range: "0 \<le> temp" "temp < 26" by (simp_all add: temp_def)
  have a: "0 < current - temp"
  proof (cases "current \<le> 2 ^ 53")
    case True
    have "temp = (current - 1) mod 26"
      unfolding temp_def by (rule loop_turn_exact(1) [OF assms True])
    then have "temp \<le> current - 1" using assms by presburger
    then show ?thesis by simp
  next
    case False
    with temp_range show ?thesis by simp
  qed
  from roundNearest_bounds [OF a] have "0 \<le> roundNearest (current - temp) - 1" by simp
  then show ?thesis
    using roundNearest_bounds [of "roundNearest (current - temp) - 1"]
          roundNearest_exact [of "roundNearest (current - temp) - 1"]
    unfolding temp_def by (cases "roundNearest (current - roundNearest (current - 1) mod 26) - 1 = 0") auto
qed

lemma loop_turn_decreases:
  assumes "0 < current"
  shows "floorDiv26 (roundNearest (roundNearest (current - roundNearest (current - 1) mod 26) - 1))
         < current"
proof (cases "current \<le> 2 ^ 53")
  case True
  from loop_turn_exact [OF assms True] assms show ?thesis by simp
next
  case False
  define temp where "temp = roundNearest (current - 1) mod 26"
  have temp_range: "0 \<le> temp" "temp < 26" by (simp_all add: temp_def)
  have a: "0 < current - temp" using False temp_range by simp
  from roundNearest_bounds [OF a]
  have ra: "0 < roundNearest (current - temp)" "roundNearest (current - temp) \<le> 2 * (current - temp)"
    by simp_all
  define b where "b = roundNearest (current - temp) - 1"
  have b0: "0 \<le> b" using ra by (simp add: b_def)
  have rb: "0 \<le> roundNearest b \<and> roundNearest b \<le> 2 * b"
  proof (cases "b = 0")
    case True
    then show ?thesis by (simp add: roundNearest_exact)
  next
    case False
    with b0 have "0 < b" by simp
    from roundNearest_bounds [OF this] show ?thesis by simp
  qed
  then have x4: "roundNearest b \<le> 4 * current" using ra temp_range by (simp add: b_def)
  from rb have "floorDiv26 (roundNearest b) \<le> 2 * (roundNearest b div 26) + 1"
    by (intro floorDiv26_bound) simp
  also have "\<dots> \<le> 2 * ((4 * current) div 26) + 1"
    using x4 by (simp add: zdiv_mono1)
  also have "\<dots> < current" using False by simp
  finally show ?thesis unfolding b_def temp_def .
qed

termination getColumnLetter_loop
  by (relation "measure (\<lambda>(current, letter). nat current)")
     (auto simp: loop_turn_decreases)

declare getColumnLetter_loop.simps [simp del]


subsection \<open>The round trip\<close>

lemma columnValue_foldl_shift:
  fixes a :: int
  defines "step \<equiv> (\<lambda>num c. num * 26 + (of_char c - 64))"
  shows "foldl step a col = a * 26 ^ length col + foldl step 0 col"
proof (induction col arbitrary: a)
  case Nil
  then show ?case by simp
next
  case (Cons c cs)
  define x :: int where "x = of_char c - 64"
  define F where "F = foldl step 0 cs"
  have "foldl step a (c # cs) = foldl step (a * 26 + x) cs"
    by (simp add: step_def x_def)
  also have "\<dots> = (a * 26 + x) * 26 ^ length cs + F"
    unfolding F_def by (rule Cons.IH)
  finally have lhs: "foldl step a (c # cs) = (a * 26 + x) * 26 ^ length cs + F" .
  have "foldl step 0 (c # cs) = foldl step x cs"
    by (simp add: step_def x_def)
  also have "\<dots> = x * 26 ^ length cs + F"
    unfolding F_def by (rule Cons.IH)
  finally have rhs: "foldl step 0 (c # cs) = x * 26 ^ length cs + F" .
  show ?case unfolding lhs rhs by (simp add: algebra_simps)
qed

lemma columnValue_Cons:
  "columnValue (c # col) = (of_char c - 64) * 26 ^ length col + columnValue col"
  unfolding columnValue_def using columnValue_foldl_shift [of "of_char c - 64" col] by simp

lemma columnValue_snoc:
  "columnValue (col @ [c]) = columnValue col * 26 + (of_char c - 64)"
  by (simp add: columnValue_def)

lemma getColumnLetter_loop_value:
  "0 \<le> current \<Longrightarrow> current \<le> 2 ^ 53 \<Longrightarrow>
   columnValue (getColumnLetter_loop current letter) = current * 26 ^ length letter + columnValue letter
   \<and> (columnLetters letter \<longrightarrow> columnLetters (getColumnLetter_loop current letter))"
proof (induction current letter rule: getColumnLetter_loop.induct)
  case (1 current letter)
  show ?case
  proof (cases "current > 0")
    case False
    with "1.prems" have "current = 0" by simp
    then show ?thesis by (simp add: getColumnLetter_loop.simps)
  next
    case True
    define temp where "temp = roundNearest (current - 1) mod 26"
    define next_current where
      "next_current = floorDiv26 (roundNearest (roundNearest (current - temp) - 1))"
    have temp_eq: "temp = (current - 1) mod 26"
      unfolding temp_def by (rule loop_turn_exact(1) [OF True "1.prems"(2)])
    have next_eq: "next_current = (current - 1) div 26"
      unfolding next_current_def temp_eq by (rule loop_turn_exact(2) [OF True "1.prems"(2)])
    have temp_range: "0 \<le> temp" "temp < 26" by (simp_all add: temp_eq)
    have next_range: "0 \<le> next_current" "next_current \<le> 2 ^ 53"
      using True "1.prems" next_eq by simp_all
    have split: "26 * next_current + temp + 1 = current"
      unfolding next_eq temp_eq by simp
    have ch: "of_char (char_of (temp + 65) :: char) = temp + 65"
      using temp_range by (simp add: of_char_of)
    have unfold: "getColumnLetter_loop current letter =
          getColumnLetter_loop next_current (char_of (temp + 65) # letter)"
      using True by (subst getColumnLetter_loop.simps) (simp add: temp_def next_current_def Let_def)
    note IH = "1.IH" [OF True temp_def, folded next_current_def, OF next_range]
    have "columnValue (getColumnLetter_loop current letter) =
          next_current * 26 ^ length (char_of (temp + 65) # letter)
            + columnValue (char_of (temp + 65) # letter)"
      unfolding unfold using IH by simp
    also have "\<dots> = next_current * (26 * 26 ^ length letter)
                    + ((temp + 1) * 26 ^ length letter + columnValue letter)"
      unfolding columnValue_Cons ch by simp
    also have "\<dots> = (26 * next_current + temp + 1) * 26 ^ length letter + columnValue letter"
      by (simp add: algebra_simps)
    also have "\<dots> = current * 26 ^ length letter + columnValue letter"
      unfolding split ..
    finally have colval: "columnValue (getColumnLetter_loop current letter) =
        current * 26 ^ length letter + columnValue letter" .
    have "columnLetters letter \<Longrightarrow> columnLetters (char_of (temp + 65) # letter)"
      using temp_range by (simp add: columnLetters_def ch)
    with IH have "columnLetters letter \<longrightarrow> columnLetters (getColumnLetter_loop current letter)"
      unfolding unfold by simp
    with colval show ?thesis by simp
  qed
qed

lemma columnValue_nonneg: "columnLetters col \<Longrightarrow> 0 \<le> columnValue col"
proof (induction col rule: rev_induct)
  case Nil
  then show ?case by (simp add: columnValue_def)
next
  case (snoc c col)
  then show ?case by (simp add: columnValue_snoc columnLetters_def)
qed

lemma colToNum_snoc:
  "colToNum (col @ [c]) =
     (case colToNum col of
        None \<Rightarrow> None
      | Some v \<Rightarrow>
          (case roundDouble (v * 26) of
             None \<Rightarrow> None
           | Some p \<Rightarrow> roundDouble (p + (of_char c - 64))))"
  by (simp add: colToNum_def)

lemma roundDouble_exact: "0 \<le> x \<Longrightarrow> x \<le> 2 ^ 53 \<Longrightarrow> roundDouble x = Some x"
proof -
  assume a: "0 \<le> x" "x \<le> 2 ^ 53"
  have "(2::int) ^ 53 < 2 ^ 1024" by (rule power_strict_increasing) simp_all
  with a have "\<not> \<bar>x\<bar> \<ge> 2 ^ 1024" by linarith
  with a show ?thesis by (simp only: roundDouble_def roundNearest_exact_le Let_def if_False)
qed

lemma colToNum_columnValue:
  "columnLetters col \<Longrightarrow> columnValue col \<le> 2 ^ 53 \<Longrightarrow> colToNum col = Some (columnValue col)"
proof (induction col rule: rev_induct)
  case Nil
  then show ?case by (simp add: colToNum_def columnValue_def)
next
  case (snoc c col)
  from snoc.prems(1) have letters: "columnLetters col" and digit: "1 \<le> (of_char c :: int) - 64"
    by (simp_all add: columnLetters_def)
  from columnValue_nonneg [OF letters] have nonneg: "0 \<le> columnValue col" .
  from snoc.prems(2) have bound: "columnValue col * 26 + (of_char c - 64) \<le> 2 ^ 53"
    by (simp add: columnValue_snoc)
  with digit nonneg have small: "columnValue col \<le> 2 ^ 53" "columnValue col * 26 \<le> 2 ^ 53"
    by linarith+
  from snoc.IH [OF letters small(1)] have ih: "colToNum col = Some (columnValue col)" .
  have r1: "roundDouble (columnValue col * 26) = Some (columnValue col * 26)"
    using nonneg small(2) by (intro roundDouble_exact) simp_all
  have r2: "roundDouble (columnValue col * 26 + (of_char c - 64))
            = Some (columnValue col * 26 + (of_char c - 64))"
    using nonneg digit bound by (intro roundDouble_exact) simp_all
  show ?case
    unfolding colToNum_snoc ih columnValue_snoc by (simp only: option.case r1 r2)
qed

text \<open>
  Claim C10, with the bound the arithmetic of doubles puts on it. The letter-to-number
  parser \<open>colToNum\<close> of \<^verbatim>\<open>addAnalysisSheetsToWorkbook\<close> undoes the number-to-letter
  encoder \<open>getColumnLetter\<close> of the report controller for every integer \<open>n\<close> from 1 to
  \<open>2\<^sup>5\<^sup>3\<close>: up to there no operation of either function is rounded, and
  \<open>colToNum (getColumnLetter n)\<close> is the number \<open>n\<close>.
\<close>

theorem colToNum_getColumnLetter:
  "1 \<le> n \<Longrightarrow> n \<le> 2 ^ 53 \<Longrightarrow> colToNum (getColumnLetter n) = Some n"
proof -
  assume n: "1 \<le> n" "n \<le> 2 ^ 53"
  then have "0 \<le> n" by simp
  from getColumnLetter_loop_value [OF this n(2), of "[]"]
  have v: "columnValue (getColumnLetter n) = n" and l: "columnLetters (getColumnLetter n)"
    by (simp_all add: getColumnLetter_def columnValue_def columnLetters_def)
  from colToNum_columnValue [OF l] n(2) show ?thesis unfolding v by simp
qed

theorem colToNum_getColumnLetter_witness:
  "(1::int) \<le> 703 \<and> (703::int) \<le> 2 ^ 53 \<and> colToNum (getColumnLetter 703) = Some 703"
  using colToNum_getColumnLetter [of 703] by simp

text \<open>
  Claim C10 as stated, for every integer from 1 on, fails beyond \<open>2\<^sup>5\<^sup>3\<close>. The number
  \<open>2\<^sup>5\<^sup>3 + 2 = 9007199254740994\<close> is a double. In the first turn of the loop
  \<^verbatim>\<open>current - 1\<close> is \<open>2\<^sup>5\<^sup>3 + 1\<close>, which is rounded to \<open>2\<^sup>5\<^sup>3\<close>, so the last letter is
  \<^verbatim>\<open>G\<close> where the exact difference gives \<^verbatim>\<open>H\<close>; and \<open>colToNum\<close> rounds its last sum
  \<open>2\<^sup>5\<^sup>3 + 1\<close> to \<open>2\<^sup>5\<^sup>3\<close>. The round trip returns \<open>9007199254740992\<close>.
\<close>

theorem colToNum_getColumnLetter_beyond:
  "roundNearest 9007199254740994 = 9007199254740994
   \<and> getColumnLetter 9007199254740994 = ''BKTXHSOGHKKG''
   \<and> colToNum (getColumnLetter 9007199254740994) = Some 9007199254740992"
  by code_simp

section \<open>Date Range Expander: the sequence of days\<close>

lemma getDatesInRange_loop_closed:
  "getDatesInRange_loop dates currentDate endDate =
     dates @ map (\<lambda>k. currentDate + int k * msPerDay)
               [0..<nat ((endDate - currentDate) div msPerDay + 1)]"
proof (induction dates currentDate endDate rule: getDatesInRange_loop.induct)
  case (1 dates currentDate endDate)
  show ?case
  proof (cases "currentDate \<le> endDate")
    case False
    then have "(endDate - currentDate) div msPerDay < 0"
      by (simp add: msPerDay_def div_neg_pos_less0)
    then have "nat ((endDate - currentDate) div msPerDay + 1) = 0" by simp
    with False show ?thesis by (subst getDatesInRange_loop.simps) simp
  next
    case True
    define n where "n = nat ((endDate - (currentDate + msPerDay)) div msPerDay + 1)"
    have q: "(endDate - (currentDate + msPerDay)) div msPerDay
               = (endDate - currentDate) div msPerDay - 1"
      by (simp add: msPerDay_def algebra_simps div_diff)
    have nonneg: "0 \<le> (endDate - currentDate) div msPerDay"
      using True by (simp add: msPerDay_def pos_imp_zdiv_nonneg_iff)
    have count: "nat ((endDate - currentDate) div msPerDay + 1) = Suc n"
      unfolding n_def q using nonneg by simp
    have "getDatesInRange_loop dates currentDate endDate =
            getDatesInRange_loop (dates @ [currentDate]) (currentDate + msPerDay) endDate"
      using True by (subst getDatesInRange_loop.simps) simp
    also have "\<dots> = (dates @ [currentDate]) @
                     map (\<lambda>k. currentDate + msPerDay + int k * msPerDay) [0..<n]"
      unfolding n_def by (rule "1.IH" [OF True])
    also have "\<dots> = dates @ map (\<lambda>k. currentDate + int k * msPerDay) [0..<Suc n]"
      by (simp add: upt_conv_Cons map_Suc_upt [symmetric] del: upt_Suc) (simp add: algebra_simps)
    finally show ?thesis unfolding count .
  qed
qed

lemma getDatesInRange_closed:
  "getDatesInRange startDate endDate =
     map (\<lambda>k. utcMidnight startDate + int k * msPerDay)
         [0..<nat ((endDate - utcMidnight startDate) div msPerDay + 1)]"
  unfolding getDatesInRange_def by (simp add: getDatesInRange_loop_closed)

lemma utcMidnight_div: "utcMidnight t = (t div msPerDay) * msPerDay"
  unfolding utcMidnight_def by (simp add: minus_mod_eq_div_mult)

lemma day_count: "(endDate - utcMidnight startDate) div msPerDay
                    = endDate div msPerDay - startDate div msPerDay"
  unfolding utcMidnight_div by (simp add: msPerDay_def)

lemma getDatesInRange_days_from_start:
  assumes "startDate \<le> endDate"
  defines "n \<equiv> nat (endDate div msPerDay - startDate div msPerDay + 1)"
  shows "getDatesInRange startDate endDate =
           map (\<lambda>k. utcMidnight startDate + int k * msPerDay) [0..<n]"
    and "0 < n"
    and "utcMidnight startDate + int (n - 1) * msPerDay = utcMidnight endDate"
proof -
  have le: "startDate div msPerDay \<le> endDate div msPerDay"
    using assms(1) by (simp add: msPerDay_def zdiv_mono1)
  show "getDatesInRange startDate endDate =
           map (\<lambda>k. utcMidnight startDate + int k * msPerDay) [0..<n]"
    unfolding n_def getDatesInRange_closed day_count ..
  show "0 < n" unfolding n_def using le by simp
  have "int (n - 1) = endDate div msPerDay - startDate div msPerDay"
    unfolding n_def using le by simp
  then have "utcMidnight startDate + int (n - 1) * msPerDay
               = (startDate div msPerDay + (endDate div msPerDay - startDate div msPerDay)) * msPerDay"
    unfolding utcMidnight_div by (simp only: distrib_right)
  then show "utcMidnight startDate + int (n - 1) * msPerDay = utcMidnight endDate"
    unfolding utcMidnight_div by simp
qed

lemma sorted_days: "sorted_wrt (<) (map (\<lambda>k. c + int k * msPerDay) [0..<n])"
  by (simp add: sorted_wrt_map msPerDay_def sorted_wrt_mono_rel [OF _ sorted_wrt_upt])

text \<open>
  Claim C4, as the code has it. \<open>getDatesInRange\<close> never fails: when the end lies before
  the midnight (UTC) that starts the start's day it returns the empty sequence, and no
  caller checks the order of the two dates. For every pair with \<open>startDate \<le> endDate\<close>
  it returns what section 4.1 asks for: the midnights of the days from the start's day to
  the end's day, both included, earliest first, one per day. A single date yields a
  one-element sequence, and so does every range of \<open>calculateDateRange\<close>.
\<close>

theorem getDatesInRange_days:
  "(endDate < utcMidnight startDate \<longrightarrow> getDatesInRange startDate endDate = [])
   \<and> (startDate \<le> endDate \<longrightarrow>
        Inr (getDatesInRange startDate endDate) = spec_dateRangeExpander startDate endDate
        \<and> getDatesInRange startDate endDate \<noteq> []
        \<and> hd (getDatesInRange startDate endDate) = utcMidnight startDate
        \<and> last (getDatesInRange startDate endDate) = utcMidnight endDate
        \<and> sorted_wrt (<) (getDatesInRange startDate endDate)
        \<and> (\<forall>i. Suc i < length (getDatesInRange startDate endDate) \<longrightarrow>
               getDatesInRange startDate endDate ! Suc i
                 = getDatesInRange startDate endDate ! i + msPerDay))
   \<and> length (getDatesInRange startDate startDate) = 1
   \<and> (case calculateDateRange specificDate now of
         (s, e) \<Rightarrow> getDatesInRange s e = [s])"
proof (intro conjI impI)
  assume "endDate < utcMidnight startDate"
  then have "(endDate - utcMidnight startDate) div msPerDay < 0"
    by (simp add: msPerDay_def div_neg_pos_less0)
  then show "getDatesInRange startDate endDate = []"
    unfolding getDatesInRange_closed by simp
next
  assume le: "startDate \<le> endDate"
  define n where "n = nat (endDate div msPerDay - startDate div msPerDay + 1)"
  note facts = getDatesInRange_days_from_start [OF le, folded n_def]
  show "Inr (getDatesInRange startDate endDate) = spec_dateRangeExpander startDate endDate"
    using le unfolding spec_dateRangeExpander_def facts(1) n_def by simp
  show "getDatesInRange startDate endDate \<noteq> []"
    unfolding facts(1) using facts(2) by simp
  show "hd (getDatesInRange startDate endDate) = utcMidnight startDate"
    unfolding facts(1) using facts(2) by (simp add: hd_map hd_upt)
  show "last (getDatesInRange startDate endDate) = utcMidnight endDate"
    unfolding facts(1) using facts(2) facts(3) by (simp add: last_map last_upt)
  show "sorted_wrt (<) (getDatesInRange startDate endDate)"
    unfolding facts(1) by (rule sorted_days)
  show "\<forall>i. Suc i < length (getDatesInRange startDate endDate) \<longrightarrow>
               getDatesInRange startDate endDate ! Suc i
                 = getDatesInRange startDate endDate ! i + msPerDay"
    unfolding facts(1) by (simp add: algebra_simps)
next
  show "length (getDatesInRange startDate startDate) = 1"
    using getDatesInRange_days_from_start(1) [of startDate startDate] by simp
next
  have one: "getDatesInRange (utcMidnight d) (utcMidnight d + 86399999) = [utcMidnight d]" for d
  proof -
    have "(utcMidnight d + 86399999) div msPerDay = d div msPerDay"
      unfolding utcMidnight_div by (simp add: msPerDay_def)
    moreover have "utcMidnight d div msPerDay = d div msPerDay"
      unfolding utcMidnight_div by (simp add: msPerDay_def)
    moreover have "utcMidnight (utcMidnight d) = utcMidnight d"
      unfolding utcMidnight_div by (simp add: msPerDay_def)
    ultimately show ?thesis
      using getDatesInRange_days_from_start(1) [of "utcMidnight d" "utcMidnight d + 86399999"]
      by simp
  qed
  show "case calculateDateRange specificDate now of (s, e) \<Rightarrow> getDatesInRange s e = [s]"
    unfolding calculateDateRange_def by (simp add: one Let_def split: option.split)
qed

theorem getDatesInRange_days_witness:
  "getDatesInRange 172800000 0 = []
   \<and> getDatesInRange 90000000 259200005 = [86400000, 172800000, 259200000]
   \<and> hd (getDatesInRange 90000000 259200005) = 86400000
   \<and> last (getDatesInRange 90000000 259200005) = 259200000
   \<and> length (getDatesInRange 5 5) = 1"
  using getDatesInRange_days [of 0 172800000 None 0]
        getDatesInRange_days [of 259200005 90000000 None 0]
        getDatesInRange_days [of 5 5 None 0]
  by (simp add: utcMidnight_def msPerDay_def spec_dateRangeExpander_def upt_conv_Cons)

text \<open>
  Claim C4 as stated fails: with the end two days before the start the expander returns
  the empty sequence where the specification has \<open>InvalidRange\<close>, and with the end
  earlier on the start's own day it returns that day.
\<close>

theorem getDatesInRange_never_fails:
  "getDatesInRange 172800000 0 = []
   \<and> spec_dateRangeExpander 172800000 0 = Inl InvalidRange
   \<and> getDatesInRange 129600000 100000000 = [86400000]"
  by (simp add: getDatesInRange_def getDatesInRange_loop.simps utcMidnight_def msPerDay_def
      spec_dateRangeExpander_def)

section \<open>Matrix Builder: the rows\<close>

lemma find_append_list:
  "find P (xs @ ys) = (case find P xs of Some x \<Rightarrow> Some x | None \<Rightarrow> find P ys)"
  by (induction xs) simp_all

lemma fold_readingMap:
  "fold (\<lambda>reading m. m(key reading \<mapsto> reading)) readings m k =
     (case find (\<lambda>r. key r = k) (rev readings) of Some r \<Rightarrow> Some r | None \<Rightarrow> m k)"
proof (induction readings arbitrary: m)
  case Nil
  then show ?case by simp
next
  case (Cons r rs)
  let ?step = "\<lambda>reading m. m(key reading \<mapsto> reading)"
  have "fold ?step (r # rs) m k = fold ?step rs (m(key r \<mapsto> r)) k"
    by simp
  also have "\<dots> = (case find (\<lambda>r. key r = k) (rev rs) of
                     Some r \<Rightarrow> Some r | None \<Rightarrow> (m(key r \<mapsto> r)) k)"
    by (rule Cons.IH)
  also have "\<dots> = (case find (\<lambda>r. key r = k) (rev (r # rs)) of
                     Some r \<Rightarrow> Some r | None \<Rightarrow> m k)"
    by (simp add: find_append_list split: option.split)
  finally show ?case .
qed

lemma buildReadingMap_find_rev:
  "buildReadingMap formatDate readings k =
     find (\<lambda>r. formatDate (reading_date r) = k) (rev readings)"
  unfolding buildReadingMap_def
  by (simp add: fold_readingMap [where key = "\<lambda>r. formatDate (reading_date r)"] split: option.split)

lemma find_rev_distinct:
  "distinct (map key rs) \<Longrightarrow> find (\<lambda>r. key r = k) (rev rs) = find (\<lambda>r. key r = k) rs"
proof (induction rs)
  case Nil
  then show ?case by simp
next
  case (Cons r rs)
  then have IH: "find (\<lambda>r. key r = k) (rev rs) = find (\<lambda>r. key r = k) rs" by simp
  show ?case
  proof (cases "key r = k")
    case True
    from Cons.prems have "key r \<notin> key ` set rs" by simp
    with True have "\<forall>x\<in>set rs. key x \<noteq> k" by (metis image_eqI)
    then have "find (\<lambda>r. key r = k) rs = None" by (simp add: find_None_iff)
    with True IH show ?thesis by (simp add: find_append_list)
  next
    case False
    with IH show ?thesis by (simp add: find_append_list split: option.split)
  qed
qed

lemma buildReadingMap_readingOn:
  "distinct (map (\<lambda>r. formatDate (reading_date r)) readings) \<Longrightarrow>
   buildReadingMap formatDate readings (formatDate d) = spec_readingOn formatDate readings d"
  unfolding spec_readingOn_def buildReadingMap_find_rev
  by (rule find_rev_distinct)

text \<open>The value a day resolves to, given the value carried into it.\<close>

lemma length_populateDateSpecificData_loop:
  "length (populateDateSpecificData_loop formatDate feeder readingMap i prev dates) = length dates"
  by (induction dates arbitrary: i prev) (simp_all add: Let_def)

lemma populateDateSpecificData_loop_nth:
  "j < length dates \<Longrightarrow>
   populateDateSpecificData_loop formatDate feeder readingMap i prev dates ! j =
     (let a = foldl (\<lambda>carried d. case readingMap (formatDate d) of
                                   Some r \<Rightarrow> cumulativeEnergyConsumption r | None \<Rightarrow> carried)
                    prev (take (Suc j) dates)
      in \<lparr>row_nomination = dailyEnergyUptake feeder * real (i + j + 1),
          row_actual = a,
          row_variance = a - dailyEnergyUptake feeder * real (i + j + 1)\<rparr>)"
proof (induction dates arbitrary: i prev j)
  case Nil
  then show ?case by simp
next
  case (Cons d rest)
  show ?case
  proof (cases j)
    case 0
    then show ?thesis by (simp add: Let_def)
  next
    case (Suc j')
    with Cons.prems have "j' < length rest" by simp
    from Cons.IH [OF this] Suc show ?thesis by (simp add: Let_def)
  qed
qed

lemma spec_actual_foldl:
  "i < length dates \<Longrightarrow>
   spec_actual formatDate readings dates i =
     foldl (\<lambda>carried d. case spec_readingOn formatDate readings d of
                          Some r \<Rightarrow> cumulativeEnergyConsumption r | None \<Rightarrow> carried)
           0 (take (Suc i) dates)"
proof (induction i)
  case 0
  then show ?case by (cases dates) simp_all
next
  case (Suc i)
  then have "take (Suc (Suc i)) dates = take (Suc i) dates @ [dates ! Suc i]"
    by (simp add: take_Suc_conv_app_nth)
  with Suc show ?case by (simp split: option.split)
qed

lemma foldl_no_reading:
  "\<forall>d\<in>set ds. lookup d = None \<Longrightarrow>
   foldl (\<lambda>carried d. case lookup d of Some r \<Rightarrow> cumulativeEnergyConsumption r | None \<Rightarrow> carried)
         carried ds = carried"
  by (induction ds arbitrary: carried) simp_all

text \<open>
  Claim C1. For every feeder and every day at the 1-indexed position \<open>i + 1\<close> of the
  expanded range, the Matrix Builder writes the nomination \<open>dailyEnergyUptake * (i + 1)\<close>,
  the actual \<open>spec_actual\<close> (the value of the feeder's reading dated that day if there is
  one, otherwise the previous day's resolved actual, 0 on a first day without a reading)
  and the variance \<open>actual - nomination\<close>; a feeder with no reading in the range has
  actual 0 on every day. The feeder's readings are one per formatted day, as the data
  model has them (one reading per feeder and calendar day).
\<close>

theorem matrix_builder_row:
  assumes "distinct (map (\<lambda>r. formatDate (reading_date r)) readings)"
      and "i < length dates"
  shows "feederMatrixRow formatDate feeder dates readings ! i =
           \<lparr>row_nomination = dailyEnergyUptake feeder * real (i + 1),
            row_actual = spec_actual formatDate readings dates i,
            row_variance = spec_actual formatDate readings dates i
                             - dailyEnergyUptake feeder * real (i + 1)\<rparr>
         \<and> length (feederMatrixRow formatDate feeder dates readings) = length dates
         \<and> ((\<forall>d\<in>set dates. \<forall>r\<in>set readings. formatDate (reading_date r) \<noteq> formatDate d)
              \<longrightarrow> row_actual (feederMatrixRow formatDate feeder dates readings ! i) = 0)"
proof -
  let ?step = "\<lambda>lookup. (\<lambda>carried d. case lookup d of
                  Some r \<Rightarrow> cumulativeEnergyConsumption r | None \<Rightarrow> carried)"
  have same: "(\<lambda>d. buildReadingMap formatDate readings (formatDate d))
                = spec_readingOn formatDate readings"
    using buildReadingMap_readingOn [OF assms(1)] by (rule ext)
  have row: "feederMatrixRow formatDate feeder dates readings ! i =
           \<lparr>row_nomination = dailyEnergyUptake feeder * real (i + 1),
            row_actual = spec_actual formatDate readings dates i,
            row_variance = spec_actual formatDate readings dates i
                             - dailyEnergyUptake feeder * real (i + 1)\<rparr>"
    unfolding feederMatrixRow_def populateDateSpecificData_def
      populateDateSpecificData_loop_nth [OF assms(2)] spec_actual_foldl [OF assms(2)]
    using same by (simp add: Let_def fun_eq_iff)
  have len: "length (feederMatrixRow formatDate feeder dates readings) = length dates"
    unfolding feederMatrixRow_def populateDateSpecificData_def
    by (rule length_populateDateSpecificData_loop)
  have zero: "row_actual (feederMatrixRow formatDate feeder dates readings ! i) = 0"
    if none: "\<forall>d\<in>set dates. \<forall>r\<in>set readings. formatDate (reading_date r) \<noteq> formatDate d"
  proof -
    have "\<forall>d\<in>set (take (Suc i) dates). spec_readingOn formatDate readings d = None"
      using none unfolding spec_readingOn_def by (auto simp: find_None_iff dest: in_set_takeD)
    then have "spec_actual formatDate readings dates i = 0"
      unfolding spec_actual_foldl [OF assms(2)] by (rule foldl_no_reading)
    then show ?thesis unfolding row by simp
  qed
  from row len zero show ?thesis by blast
qed

theorem matrix_builder_row_witness:
  "distinct (map (\<lambda>r. sampleFormatDate (reading_date r)) [sampleReading 0 100, sampleReading 2 250])
   \<and> (1::nat) < length [0, 86400000, 172800000 :: int]
   \<and> feederMatrixRow sampleFormatDate sampleFeeder [0, 86400000, 172800000]
        [sampleReading 0 100, sampleReading 2 250] ! 1
      = \<lparr>row_nomination = 200, row_actual = 100, row_variance = - 100\<rparr>
   \<and> feederMatrixRow sampleFormatDate sampleFeeder [0, 86400000, 172800000]
        [sampleReading 0 100, sampleReading 2 250] ! 2
      = \<lparr>row_nomination = 300, row_actual = 250, row_variance = - 50\<rparr>
   \<and> row_actual (feederMatrixRow sampleFormatDate sampleFeeder [0, 86400000, 172800000] [] ! 1) = 0"
  using matrix_builder_row [of sampleFormatDate "[sampleReading 0 100, sampleReading 2 250]" 1
          "[0, 86400000, 172800000]" sampleFeeder]
        matrix_builder_row [of sampleFormatDate "[sampleReading 0 100, sampleReading 2 250]" 2
          "[0, 86400000, 172800000]" sampleFeeder]
        matrix_builder_row [of sampleFormatDate "[]" 1 "[0, 86400000, 172800000]" sampleFeeder]
  by (simp add: sampleFormatDate_def sampleReading_def sampleFeeder_def spec_readingOn_def
      numeral_2_eq_2)

section \<open>Compliance Classifier: the rule labels\<close>

lemma complianceRules_exclusive:
  "distinct (complianceRules dailyUptake dayIndex nom act prev)
   \<and> \<not> (''< 70% Nom'' \<in> set (complianceRules dailyUptake dayIndex nom act prev)
         \<and> ''> 130% Nom'' \<in> set (complianceRules dailyUptake dayIndex nom act prev))
   \<and> \<not> (''< 70% Daily Uptake'' \<in> set (complianceRules dailyUptake dayIndex nom act prev)
         \<and> ''> 130% Daily Uptake'' \<in> set (complianceRules dailyUptake dayIndex nom act prev))"
  unfolding complianceRules_def by (simp add: Let_def)

lemma runComplianceChecks_cases:
  "runComplianceChecks formatDate feeder readingMap dates prevActual = Some checks \<Longrightarrow>
   checks = [] \<or>
   checks = complianceRules (dailyEnergyUptake feeder) (int (length dates))
              (dailyEnergyUptake feeder * real_of_int (int (length dates)))
              (cumulativeEnergyConsumption (the (readingMap (formatDate (last dates)))))
              (previousDayActual formatDate readingMap dates prevActual)"
  unfolding runComplianceChecks_def
  by (auto simp: Let_def split: if_splits option.splits)

lemma analyseFeeder_cases:
  "fa_failedChecks (analyseFeeder formatDate dates feeder readings regionName) = [] \<or>
   (\<exists>dayIndex nom act prev.
      fa_failedChecks (analyseFeeder formatDate dates feeder readings regionName)
        = complianceRules (dailyEnergyUptake feeder) dayIndex nom act prev)"
  unfolding analyseFeeder_def noAnalysis_def
  by (auto simp: Let_def split: if_splits option.splits)

text \<open>
  Claim C7. On every run of the Compliance Classifier, in the report controller and in
  \<^verbatim>\<open>addAnalysisSheetsToWorkbook\<close>, the list of failed checks never holds both
  \<^verbatim>\<open>'< 70% Nom'\<close> and \<^verbatim>\<open>'> 130% Nom'\<close>, never holds both \<^verbatim>\<open>'< 70% Daily Uptake'\<close> and
  \<^verbatim>\<open>'> 130% Daily Uptake'\<close>, and holds no label twice.
\<close>

theorem rule_pairs_exclusive:
  "(runComplianceChecks formatDate feeder readingMap dates prevActual = Some checks \<longrightarrow>
      distinct checks
      \<and> \<not> (''< 70% Nom'' \<in> set checks \<and> ''> 130% Nom'' \<in> set checks)
      \<and> \<not> (''< 70% Daily Uptake'' \<in> set checks \<and> ''> 130% Daily Uptake'' \<in> set checks))
   \<and> distinct (fa_failedChecks (analyseFeeder formatDate dates feeder readings regionName))
   \<and> \<not> (''< 70% Nom'' \<in> set (fa_failedChecks (analyseFeeder formatDate dates feeder readings regionName))
         \<and> ''> 130% Nom'' \<in> set (fa_failedChecks (analyseFeeder formatDate dates feeder readings regionName)))
   \<and> \<not> (''< 70% Daily Uptake'' \<in> set (fa_failedChecks (analyseFeeder formatDate dates feeder readings regionName))
         \<and> ''> 130% Daily Uptake'' \<in> set (fa_failedChecks (analyseFeeder formatDate dates feeder readings regionName)))"
proof (intro conjI impI)
  assume run: "runComplianceChecks formatDate feeder readingMap dates prevActual = Some checks"
  from runComplianceChecks_cases [OF run] complianceRules_exclusive
  show "distinct checks"
    and "\<not> (''< 70% Nom'' \<in> set checks \<and> ''> 130% Nom'' \<in> set checks)"
    and "\<not> (''< 70% Daily Uptake'' \<in> set checks \<and> ''> 130% Daily Uptake'' \<in> set checks)"
    by (metis distinct.simps(1) empty_iff empty_set)+
next
  let ?cs = "fa_failedChecks (analyseFeeder formatDate dates feeder readings regionName)"
  from analyseFeeder_cases [of formatDate dates feeder readings regionName]
    complianceRules_exclusive
  show "distinct ?cs"
    and "\<not> (''< 70% Nom'' \<in> set ?cs \<and> ''> 130% Nom'' \<in> set ?cs)"
    and "\<not> (''< 70% Daily Uptake'' \<in> set ?cs \<and> ''> 130% Daily Uptake'' \<in> set ?cs)"
    by (metis distinct.simps(1) empty_iff empty_set)+
qed

theorem rule_pairs_exclusive_witness:
  "runComplianceChecks sampleFormatDate sampleFeeder
     (buildReadingMap sampleFormatDate [sampleReading 2 150]) [0, 86400000, 172800000] 0
     = Some [''< 70% Nom'', ''> 130% Daily Uptake'']
   \<and> distinct [''< 70% Nom'', ''> 130% Daily Uptake'']
   \<and> ''> 130% Nom'' \<notin> set [''< 70% Nom'', ''> 130% Daily Uptake'']
   \<and> ''< 70% Daily Uptake'' \<notin> set [''< 70% Nom'', ''> 130% Daily Uptake'']
   \<and> fa_failedChecks (analyseFeeder sampleFormatDate [0, 86400000, 172800000] sampleFeeder
        [sampleReading 2 150] ''Region 1'') = [''< 70% Nom'', ''> 130% Daily Uptake'']"
  using rule_pairs_exclusive [of sampleFormatDate sampleFeeder
          "buildReadingMap sampleFormatDate [sampleReading 2 150]" "[0, 86400000, 172800000]" 0
          "[''< 70% Nom'', ''> 130% Daily Uptake'']" "[sampleReading 2 150]" "''Region 1''"]
  by (simp add: runComplianceChecks_def analyseFeeder_def lastDateStrOf_def buildReadingMap_def
      complianceRules_def previousDayActual_def sampleFormatDate_def sampleFeeder_def
      sampleReading_def msPerDay_def Let_def)

section \<open>Compliance Classifier: the values the rules are evaluated on\<close>

lemma feederMatrixRow_nth:
  assumes "distinct (map (\<lambda>r. formatDate (reading_date r)) readings)"
      and "i < length dates"
  shows "row_actual (feederMatrixRow formatDate feeder dates readings ! i)
           = spec_actual formatDate readings dates i"
proof -
  have same: "(\<lambda>d. buildReadingMap formatDate readings (formatDate d))
                = spec_readingOn formatDate readings"
    using buildReadingMap_readingOn [OF assms(1)] by (rule ext)
  show ?thesis
    unfolding feederMatrixRow_def populateDateSpecificData_def
      populateDateSpecificData_loop_nth [OF assms(2)] spec_actual_foldl [OF assms(2)]
    using same by (simp add: Let_def fun_eq_iff)
qed

lemma spec_actual_reading:
  "spec_readingOn formatDate readings (dates ! i) = Some r \<Longrightarrow>
   spec_actual formatDate readings dates i = cumulativeEnergyConsumption r"
  by (cases i) simp_all

lemma runComplianceChecks_guarded:
  assumes "dates \<noteq> []"
      and "readingMap (formatDate (last dates)) = Some lastReading"
      and "0 < cumulativeEnergyConsumption lastReading"
  shows "runComplianceChecks formatDate feeder readingMap dates prevActual =
           Some (complianceRules (dailyEnergyUptake feeder) (int (length dates))
                   (dailyEnergyUptake feeder * real (length dates))
                   (cumulativeEnergyConsumption lastReading)
                   (previousDayActual formatDate readingMap dates prevActual))"
  using assms unfolding runComplianceChecks_def by (simp add: Let_def)

lemma runComplianceChecks_insufficient:
  assumes "dates \<noteq> []"
      and "case readingMap (formatDate (last dates)) of
             None \<Rightarrow> True | Some lastReading \<Rightarrow> cumulativeEnergyConsumption lastReading \<le> 0"
  shows "runComplianceChecks formatDate feeder readingMap dates prevActual = Some []"
  using assms unfolding runComplianceChecks_def by (simp add: Let_def split: option.splits)

lemma analyseFeeder_guarded:
  assumes "lastDateStrOf formatDate readings = Some lastDateStr"
      and "lastDateStr \<noteq> []"
      and "buildReadingMap formatDate readings lastDateStr = Some lastReading"
      and "0 < cumulativeEnergyConsumption lastReading"
  shows "fa_failedChecks (analyseFeeder formatDate dates feeder readings regionName) =
           complianceRules (dailyEnergyUptake feeder)
             (findIndex (\<lambda>d. formatDate d = lastDateStr) dates + 1)
             (dailyEnergyUptake feeder
                * real_of_int (findIndex (\<lambda>d. formatDate d = lastDateStr) dates + 1))
             (cumulativeEnergyConsumption lastReading)
             (case buildReadingMap formatDate readings
                     (formatDate (reading_date lastReading - msPerDay)) of
                Some prevReading \<Rightarrow> cumulativeEnergyConsumption prevReading | None \<Rightarrow> 0)"
  using assms unfolding analyseFeeder_def by (simp add: Let_def)

lemma analyseFeeder_insufficient:
  assumes "case lastDateStrOf formatDate readings of
             None \<Rightarrow> True
           | Some lastDateStr \<Rightarrow>
               lastDateStr = [] \<or>
               (case buildReadingMap formatDate readings lastDateStr of
                  None \<Rightarrow> True
                | Some lastReading \<Rightarrow> cumulativeEnergyConsumption lastReading \<le> 0)"
  shows "analyseFeeder formatDate dates feeder readings regionName = noAnalysis"
  using assms unfolding analyseFeeder_def
  by (auto simp: Let_def split: option.splits)

text \<open>
  Claim C2, as the code has it. For a range of more than one day whose days are
  consecutive, the previous actual of \<open>runComplianceChecks\<close> is the value of the reading
  dated the day before the last day when there is one, and then it is the Matrix
  Builder's resolved actual of that day; it is 0, not the carried-forward value, when that
  day has no reading. When the guard passes, the rules are evaluated on that value. The
  loop body of \<^verbatim>\<open>addAnalysisSheetsToWorkbook\<close> takes the reading dated the day before the
  classified day in the same way, and 0 when there is none.
\<close>

theorem previous_actual_is_reading_or_zero:
  assumes "distinct (map (\<lambda>r. formatDate (reading_date r)) readings)"
      and "1 < length dates"
      and "dates ! (length dates - 2) = last dates - msPerDay"
  shows "previousDayActual formatDate (buildReadingMap formatDate readings) dates prevActual
           = (case spec_readingOn formatDate readings (dates ! (length dates - 2)) of
                Some r \<Rightarrow> cumulativeEnergyConsumption r | None \<Rightarrow> 0)
         \<and> (\<forall>r. spec_readingOn formatDate readings (dates ! (length dates - 2)) = Some r \<longrightarrow>
               previousDayActual formatDate (buildReadingMap formatDate readings) dates prevActual
                 = row_actual (feederMatrixRow formatDate feeder dates readings ! (length dates - 2)))
         \<and> (\<forall>lastReading.
               buildReadingMap formatDate readings (formatDate (last dates)) = Some lastReading
               \<and> 0 < cumulativeEnergyConsumption lastReading \<longrightarrow>
               runComplianceChecks formatDate feeder (buildReadingMap formatDate readings) dates
                   prevActual
                 = Some (complianceRules (dailyEnergyUptake feeder) (int (length dates))
                           (dailyEnergyUptake feeder * real (length dates))
                           (cumulativeEnergyConsumption lastReading)
                           (previousDayActual formatDate (buildReadingMap formatDate readings)
                              dates prevActual)))
         \<and> (\<forall>lastDateStr lastReading.
               lastDateStrOf formatDate readings = Some lastDateStr \<and> lastDateStr \<noteq> []
               \<and> buildReadingMap formatDate readings lastDateStr = Some lastReading
               \<and> 0 < cumulativeEnergyConsumption lastReading \<longrightarrow>
               fa_failedChecks (analyseFeeder formatDate dates feeder readings regionName)
                 = complianceRules (dailyEnergyUptake feeder)
                     (findIndex (\<lambda>d. formatDate d = lastDateStr) dates + 1)
                     (dailyEnergyUptake feeder
                        * real_of_int (findIndex (\<lambda>d. formatDate d = lastDateStr) dates + 1))
                     (cumulativeEnergyConsumption lastReading)
                     (case spec_readingOn formatDate readings (reading_date lastReading - msPerDay) of
                        Some r \<Rightarrow> cumulativeEnergyConsumption r | None \<Rightarrow> 0))"
proof -
  let ?rm = "buildReadingMap formatDate readings"
  let ?prevDay = "dates ! (length dates - 2)"
  have lookup: "?rm (formatDate d) = spec_readingOn formatDate readings d" for d
    by (rule buildReadingMap_readingOn [OF assms(1)])
  have prev: "previousDayActual formatDate ?rm dates prevActual
           = (case spec_readingOn formatDate readings ?prevDay of
                Some r \<Rightarrow> cumulativeEnergyConsumption r | None \<Rightarrow> 0)"
    unfolding previousDayActual_def using assms(2) by (simp add: Let_def lookup assms(3))
  have idx: "length dates - 2 < length dates" using assms(2) by simp
  have matrix: "previousDayActual formatDate ?rm dates prevActual
                  = row_actual (feederMatrixRow formatDate feeder dates readings ! (length dates - 2))"
    if "spec_readingOn formatDate readings ?prevDay = Some r" for r
    unfolding prev feederMatrixRow_nth [OF assms(1) idx] spec_actual_reading [OF that]
    using that by simp
  have nonempty: "dates \<noteq> []" using assms(2) by auto
  have run: "runComplianceChecks formatDate feeder ?rm dates prevActual
                 = Some (complianceRules (dailyEnergyUptake feeder) (int (length dates))
                           (dailyEnergyUptake feeder * real (length dates))
                           (cumulativeEnergyConsumption lastReading)
                           (previousDayActual formatDate ?rm dates prevActual))"
    if "?rm (formatDate (last dates)) = Some lastReading"
      and "0 < cumulativeEnergyConsumption lastReading" for lastReading
    using nonempty that
    by (rule runComplianceChecks_guarded [where readingMap = "?rm" and formatDate = formatDate])
  have analysis: "fa_failedChecks (analyseFeeder formatDate dates feeder readings regionName)
                 = complianceRules (dailyEnergyUptake feeder)
                     (findIndex (\<lambda>d. formatDate d = lastDateStr) dates + 1)
                     (dailyEnergyUptake feeder
                        * real_of_int (findIndex (\<lambda>d. formatDate d = lastDateStr) dates + 1))
                     (cumulativeEnergyConsumption lastReading)
                     (case spec_readingOn formatDate readings (reading_date lastReading - msPerDay) of
                        Some r \<Rightarrow> cumulativeEnergyConsumption r | None \<Rightarrow> 0)"
    if "lastDateStrOf formatDate readings = Some lastDateStr" and "lastDateStr \<noteq> []"
      and "?rm lastDateStr = Some lastReading"
      and "0 < cumulativeEnergyConsumption lastReading" for lastDateStr lastReading
    using that
    by (simp add: analyseFeeder_guarded [where lastDateStr = lastDateStr and lastReading = lastReading]
        lookup)
  from prev matrix run analysis show ?thesis by blast
qed

theorem previous_actual_is_reading_or_zero_witness:
  "distinct (map (\<lambda>r. sampleFormatDate (reading_date r))
      [sampleReading 0 150, sampleReading 1 200, sampleReading 2 250])
   \<and> 1 < length [0, 86400000, 172800000 :: int]
   \<and> [0, 86400000, 172800000] ! (length [0, 86400000, 172800000 :: int] - 2)
        = last [0, 86400000, 172800000] - msPerDay
   \<and> previousDayActual sampleFormatDate
        (buildReadingMap sampleFormatDate
           [sampleReading 0 150, sampleReading 1 200, sampleReading 2 250])
        [0, 86400000, 172800000] 0 = 200
   \<and> row_actual (feederMatrixRow sampleFormatDate sampleFeeder [0, 86400000, 172800000]
        [sampleReading 0 150, sampleReading 1 200, sampleReading 2 250] ! 1) = 200
   \<and> runComplianceChecks sampleFormatDate sampleFeeder
        (buildReadingMap sampleFormatDate
           [sampleReading 0 150, sampleReading 1 200, sampleReading 2 250])
        [0, 86400000, 172800000] 0 = Some [''< 70% Daily Uptake'']
   \<and> fa_failedChecks (analyseFeeder sampleFormatDate [0, 86400000, 172800000] sampleFeeder
        [sampleReading 0 150, sampleReading 1 200, sampleReading 2 250] ''Region 1'')
        = [''< 70% Daily Uptake'']
   \<and> previousDayActual sampleFormatDate
        (buildReadingMap sampleFormatDate [sampleReading 0 150, sampleReading 2 250])
        [0, 86400000, 172800000] 0 = 0"
  using previous_actual_is_reading_or_zero [of sampleFormatDate
          "[sampleReading 0 150, sampleReading 1 200, sampleReading 2 250]"
          "[0, 86400000, 172800000]" 0 sampleFeeder "''Region 1''"]
        previous_actual_is_reading_or_zero [of sampleFormatDate
          "[sampleReading 0 150, sampleReading 2 250]"
          "[0, 86400000, 172800000]" 0 sampleFeeder "''Region 1''"]
  by (simp add: runComplianceChecks_def analyseFeeder_def lastDateStrOf_def buildReadingMap_def
      feederMatrixRow_def populateDateSpecificData_def
      complianceRules_def previousDayActual_def sampleFormatDate_def sampleFeeder_def
      sampleReading_def msPerDay_def spec_readingOn_def Let_def numeral_2_eq_2)

text \<open>
  Claim C2 as stated fails. Over three days with readings 150 on the first day and 250 on
  the third, the guard passes and the Matrix Builder resolves the second day to the
  carried-forward 150, but the classifier takes 0 as the previous actual: it reports
  \<^verbatim>\<open>'> 130% Daily Uptake'\<close>, where the rules evaluated on the carried-forward value report
  nothing. The loop body of \<^verbatim>\<open>addAnalysisSheetsToWorkbook\<close> does the same.
\<close>

theorem previous_actual_not_carried_forward:
  "row_actual (feederMatrixRow sampleFormatDate sampleFeeder [0, 86400000, 172800000]
      [sampleReading 0 150, sampleReading 2 250] ! 1) = 150
   \<and> previousDayActual sampleFormatDate
        (buildReadingMap sampleFormatDate [sampleReading 0 150, sampleReading 2 250])
        [0, 86400000, 172800000] 0 = 0
   \<and> runComplianceChecks sampleFormatDate sampleFeeder
        (buildReadingMap sampleFormatDate [sampleReading 0 150, sampleReading 2 250])
        [0, 86400000, 172800000] 0 = Some [''> 130% Daily Uptake'']
   \<and> fa_failedChecks (analyseFeeder sampleFormatDate [0, 86400000, 172800000] sampleFeeder
        [sampleReading 0 150, sampleReading 2 250] ''Region 1'') = [''> 130% Daily Uptake'']
   \<and> complianceRules 100 3 300 250 150 = []"
  by (simp add: runComplianceChecks_def analyseFeeder_def lastDateStrOf_def buildReadingMap_def
      feederMatrixRow_def populateDateSpecificData_def
      complianceRules_def previousDayActual_def sampleFormatDate_def sampleFeeder_def
      sampleReading_def msPerDay_def Let_def numeral_2_eq_2)

section \<open>Compliance Classifier: the classified day\<close>

lemma last_sorted_Max:
  fixes xs :: "'a::linorder list"
  shows "sorted xs \<Longrightarrow> xs \<noteq> [] \<Longrightarrow> last xs = Max (set xs)"
proof (induction xs)
  case Nil
  then show ?case by simp
next
  case (Cons x xs)
  show ?case
  proof (cases "xs = []")
    case True
    then show ?thesis by simp
  next
    case False
    with Cons have IH: "last xs = Max (set xs)" by simp
    from False have "hd xs \<in> set xs" by simp
    moreover from Cons.prems have "\<forall>y\<in>set xs. x \<le> y" by simp
    ultimately have "x \<le> hd xs" and "hd xs \<le> Max (set xs)" by simp_all
    then have "x \<le> Max (set xs)" by (rule order_trans)
    then have "Max (insert x (set xs)) = Max (set xs)"
      using False by (simp add: max_def)
    with False IH show ?thesis by simp
  qed
qed

lemma lastDateStrOf_Max:
  "readings \<noteq> [] \<Longrightarrow>
   lastDateStrOf formatDate readings
     = Some (Max (set (map (\<lambda>r. formatDate (reading_date r)) readings)))"
proof -
  assume nonempty: "readings \<noteq> []"
  define readingDates where "readingDates = map (\<lambda>r. formatDate (reading_date r)) readings"
  have "readingDates \<noteq> []" using nonempty by (simp add: readingDates_def)
  then have "sort readingDates \<noteq> []" by (metis length_0_conv length_sort)
  then have "last (sort readingDates) = Max (set (sort readingDates))"
    by (rule last_sorted_Max [OF sorted_sort])
  then have "last (sort readingDates) = Max (set readingDates)" by simp
  with \<open>readingDates \<noteq> []\<close> show ?thesis
    unfolding lastDateStrOf_def readingDates_def [symmetric] by (simp add: Let_def)
qed

lemma findIndex_last:
  "distinct (map f ds) \<Longrightarrow> ds \<noteq> [] \<Longrightarrow>
   findIndex (\<lambda>d. f d = f (last ds)) ds = int (length ds) - 1"
proof (induction ds)
  case Nil
  then show ?case by simp
next
  case (Cons d rest)
  show ?case
  proof (cases "rest = []")
    case True
    then show ?thesis by simp
  next
    case False
    then have "last rest \<in> set rest" by simp
    with Cons.prems have differs: "f d \<noteq> f (last rest)" by (metis distinct.simps(2) image_eqI list.simps(9) set_map)
    from Cons False have "findIndex (\<lambda>d. f d = f (last rest)) rest = int (length rest) - 1"
      by simp
    with False differs show ?thesis by (simp add: Let_def)
  qed
qed

lemma runComplianceChecks_last_day_only:
  assumes "rm' (formatDate (last dates)) = rm (formatDate (last dates))"
      and "rm' (formatDate (last dates - msPerDay)) = rm (formatDate (last dates - msPerDay))"
  shows "runComplianceChecks formatDate feeder rm' dates prevActual
           = runComplianceChecks formatDate feeder rm dates prevActual"
  unfolding runComplianceChecks_def previousDayActual_def using assms
  by (simp add: Let_def split: option.split)

text \<open>
  Claim C3 holds of \<open>runComplianceChecks\<close> in the report controller, which reads the
  last element of the date sequence (\<open>runComplianceChecks_last_day_only\<close>,
  \<open>runComplianceChecks_guarded\<close>), and fails on \<^verbatim>\<open>addAnalysisSheetsToWorkbook\<close>. Under
  the comment \<^verbatim>\<open>Only run on last day\<close> its loop body takes the greatest formatted date
  among the feeder's own readings (\<open>lastDateStrOf_Max\<close>), which is the final day of the
  range only when the feeder has a reading dated that day. Over three days with a single
  reading of 100 on the second day, the final day has no reading; the loop body
  classifies the second day, with the nomination 200 of position 2, copies the feeder's
  row 6 to the sheet \<^verbatim>\<open>'< 70% Nom'\<close> and enters the feeder in the summary under the date
  of the second day. \<open>runComplianceChecks\<close> looks at the final day and reports nothing.
\<close>

theorem classified_day_not_final:
  "sampleFormatDate (last [0, 86400000, 172800000]) = ''1970-01-03''
   \<and> lastDateStrOf sampleFormatDate [sampleReading 1 100] = Some ''1970-01-02''
   \<and> findIndex (\<lambda>d. sampleFormatDate d = ''1970-01-02'') [0, 86400000, 172800000] + 1 = 2
   \<and> analyseFeeder sampleFormatDate [0, 86400000, 172800000] sampleFeeder
        [sampleReading 1 100] ''Region 1''
      = \<lparr>fa_failedChecks = [''< 70% Nom''], fa_copies = [''< 70% Nom''],
         fa_summary = [\<lparr>fc_feederName = ''Feeder 1'', fc_businessHub = ''Hub 1'',
                         fc_region = ''Region 1'', fc_date = ''1970-01-02'',
                         fc_failedChecks = [''< 70% Nom'']\<rparr>]\<rparr>
   \<and> addAnalysisSheetsToWorkbook sampleFormatDate [sampleFeeder] [0, 86400000, 172800000]
        [sampleReading 1 100]
      = Inr \<lparr>aa_rowIndex = 7, aa_copies = [(''< 70% Nom'', 6)],
              aa_summary = [\<lparr>fc_feederName = ''Feeder 1'', fc_businessHub = ''Hub 1'',
                              fc_region = ''Region 1'', fc_date = ''1970-01-02'',
                              fc_failedChecks = [''< 70% Nom'']\<rparr>]\<rparr>
   \<and> runComplianceChecks sampleFormatDate sampleFeeder
        (buildReadingMap sampleFormatDate [sampleReading 1 100]) [0, 86400000, 172800000] 0
      = Some []"
  by (simp add: runComplianceChecks_def analyseFeeder_def lastDateStrOf_def buildReadingMap_def
      complianceRules_def previousDayActual_def sampleFormatDate_def sampleFeeder_def
      sampleReading_def msPerDay_def objectName_def addAnalysisSheetsToWorkbook_def
      pushUnderObject_def prototypeMembers_def regionNameOf_def readingsOfObject_def
      analysisStep_def analysisRegions_def objectKeys_def isArrayIndex_def Let_def)

section \<open>Report controller: the loops over regions and feeders\<close>

lemma mset_pushUnder:
  "mset (processingOrder (pushUnder k v m)) = mset (processingOrder m) + {#(k, v)#}"
  unfolding processingOrder_def by (induction m) auto

lemma keys_pushUnder:
  "map fst (pushUnder k v m) = (if k \<in> fst ` set m then map fst m else map fst m @ [k])"
  by (induction m) (auto split: if_splits)

lemma distinct_pushUnder:
  "distinct (map fst m) \<Longrightarrow> distinct (map fst (pushUnder k v m))"
  by (simp add: keys_pushUnder)

lemma foldl_pushUnder:
  "mset (processingOrder (foldl (\<lambda>m x. pushUnder (key x) x m) m0 xs))
     = mset (processingOrder m0) + mset (map (\<lambda>x. (key x, x)) xs)
   \<and> (distinct (map fst m0) \<longrightarrow>
        distinct (map fst (foldl (\<lambda>m x. pushUnder (key x) x m) m0 xs)))"
proof (induction xs arbitrary: m0)
  case Nil
  then show ?case by simp
next
  case (Cons x xs)
  show ?case
    using Cons.IH [of "pushUnder (key x) x m0"]
    by (simp add: mset_pushUnder distinct_pushUnder)
qed

lemma processingOrder_feedersByRegion:
  "mset (processingOrder (feedersByRegion feeders))
     = mset (map (\<lambda>feeder. (refName (feeder_region feeder), feeder)) feeders)"
  unfolding feedersByRegion_def
  using foldl_pushUnder [of "\<lambda>feeder. refName (feeder_region feeder)" "[]" feeders]
  by (simp add: processingOrder_def)


lemma runComplianceChecks_Some:
  "dates \<noteq> [] \<Longrightarrow> \<exists>checks. runComplianceChecks formatDate feeder readingMap dates prevActual = Some checks"
  unfolding runComplianceChecks_def by (simp add: Let_def split: option.split)

lemma lineFeeders_append: "lineFeeders (xs @ ys) = lineFeeders xs @ lineFeeders ys"
  by (induction xs rule: lineFeeders.induct) simp_all

lemma populateFeeder_effect:
  assumes "dates \<noteq> []"
  shows "\<exists>st'. populateFeeder formatDate dates readingsByFeeder includeCompliance regionName st feeder
                 = Some st'
             \<and> rowIndex st' = rowIndex st + 1
             \<and> feederSerial st' = feederSerial st + 1
             \<and> sheetLines st' = sheetLines st @
                  [FeederLine (rowIndex st) (feederSerial st) feeder
                     (feederMatrixRow formatDate feeder dates (readingsOf readingsByFeeder feeder))]
             \<and> failedChecksSummary st' = failedChecksSummary st @
                  (if includeCompliance
                   then feederSummary formatDate dates readingsByFeeder regionName feeder else [])"
proof -
  obtain checks where
    "runComplianceChecks formatDate feeder
       (buildReadingMap formatDate (readingsOf readingsByFeeder feeder)) dates 0 = Some checks"
    using runComplianceChecks_Some [OF assms] by blast
  then show ?thesis
    unfolding populateFeeder_def feederSummary_def feederMatrixRow_def
    by (simp add: Let_def)
qed

lemma populateFeeders_effect:
  assumes "dates \<noteq> []"
  shows "\<exists>st'. populateFeeders formatDate dates readingsByFeeder includeCompliance regionName st fs
                 = Some st'
             \<and> rowIndex st' = rowIndex st + length fs
             \<and> lineFeeders (sheetLines st') = lineFeeders (sheetLines st) @ fs
             \<and> failedChecksSummary st' = failedChecksSummary st @
                  (if includeCompliance
                   then concat (map (feederSummary formatDate dates readingsByFeeder regionName) fs)
                   else [])"
proof (induction fs arbitrary: st)
  case Nil
  then show ?case by simp
next
  case (Cons feeder rest)
  obtain st1 where st1:
    "populateFeeder formatDate dates readingsByFeeder includeCompliance regionName st feeder = Some st1"
    "rowIndex st1 = rowIndex st + 1"
    "sheetLines st1 = sheetLines st @
       [FeederLine (rowIndex st) (feederSerial st) feeder
          (feederMatrixRow formatDate feeder dates (readingsOf readingsByFeeder feeder))]"
    "failedChecksSummary st1 = failedChecksSummary st @
       (if includeCompliance
        then feederSummary formatDate dates readingsByFeeder regionName feeder else [])"
    using populateFeeder_effect [OF assms] by blast
  obtain st' where st':
    "populateFeeders formatDate dates readingsByFeeder includeCompliance regionName st1 rest = Some st'"
    "rowIndex st' = rowIndex st1 + length rest"
    "lineFeeders (sheetLines st') = lineFeeders (sheetLines st1) @ rest"
    "failedChecksSummary st' = failedChecksSummary st1 @
       (if includeCompliance
        then concat (map (feederSummary formatDate dates readingsByFeeder regionName) rest)
        else [])"
    using Cons.IH [of st1] by blast
  show ?case
    using st1 st' by (simp add: lineFeeders_append)
qed

lemma populateRegions_effect:
  assumes "dates \<noteq> []"
  shows "\<exists>st'. populateRegions formatDate dates readingsByFeeder includeCompliance st groups = Some st'
             \<and> lineFeeders (sheetLines st') = lineFeeders (sheetLines st) @ concat (map snd groups)
             \<and> failedChecksSummary st' = failedChecksSummary st @
                  (if includeCompliance
                   then concat (map (\<lambda>(regionName, feeder).
                                       feederSummary formatDate dates readingsByFeeder regionName feeder)
                                    (processingOrder groups))
                   else [])"
proof (induction groups arbitrary: st)
  case Nil
  then show ?case by (simp add: processingOrder_def)
next
  case (Cons g rest)
  obtain regionName regionFeeders where g: "g = (regionName, regionFeeders)" by (cases g)
  define st1 where
    "st1 = st\<lparr>sheetLines := sheetLines st @ [RegionBanner (rowIndex st) regionName],
              rowIndex := rowIndex st + 1\<rparr>"
  obtain st2 where st2:
    "populateFeeders formatDate dates readingsByFeeder includeCompliance regionName st1 regionFeeders
       = Some st2"
    "lineFeeders (sheetLines st2) = lineFeeders (sheetLines st1) @ regionFeeders"
    "failedChecksSummary st2 = failedChecksSummary st1 @
       (if includeCompliance
        then concat (map (feederSummary formatDate dates readingsByFeeder regionName) regionFeeders)
        else [])"
    using populateFeeders_effect [OF assms, of formatDate readingsByFeeder includeCompliance
        regionName st1 regionFeeders] by blast
  obtain st' where st':
    "populateRegions formatDate dates readingsByFeeder includeCompliance st2 rest = Some st'"
    "lineFeeders (sheetLines st') = lineFeeders (sheetLines st2) @ concat (map snd rest)"
    "failedChecksSummary st' = failedChecksSummary st2 @
       (if includeCompliance
        then concat (map (\<lambda>(regionName, feeder).
                            feederSummary formatDate dates readingsByFeeder regionName feeder)
                         (processingOrder rest))
        else [])"
    using Cons.IH [of st2] by blast
  have lines1: "lineFeeders (sheetLines st1) = lineFeeders (sheetLines st)"
    unfolding st1_def by (simp add: lineFeeders_append)
  have summary1: "failedChecksSummary st1 = failedChecksSummary st"
    unfolding st1_def by simp
  have order: "processingOrder ((regionName, regionFeeders) # rest)
                 = map (Pair regionName) regionFeeders @ processingOrder rest"
    unfolding processingOrder_def by simp
  have "populateRegions formatDate dates readingsByFeeder includeCompliance st (g # rest) = Some st'"
    unfolding g using st2(1) st'(1) by (simp add: st1_def Let_def)
  then show ?case
    using st2 st' lines1 summary1 unfolding g by (simp add: order comp_def)
qed

lemma populateFeederData_effect:
  assumes "dates \<noteq> []"
  shows "\<exists>st. populateFeederData formatDate feeders dates readingsByFeeder includeCompliance = Some st
             \<and> lineFeeders (sheetLines st) = map snd (processingOrder (feedersByRegion feeders))
             \<and> failedChecksSummary st =
                  (if includeCompliance
                   then concat (map (\<lambda>(regionName, feeder).
                                       feederSummary formatDate dates readingsByFeeder regionName feeder)
                                    (processingOrder (feedersByRegion feeders)))
                   else [])"
proof -
  have "map snd (processingOrder groups) = concat (map snd groups)" for groups :: "(string \<times> PopulatedFeeder list) list"
    unfolding processingOrder_def by (induction groups) (auto simp: comp_def)
  then show ?thesis
    unfolding populateFeederData_def
    using populateRegions_effect [OF assms, of formatDate readingsByFeeder includeCompliance
        "\<lparr>rowIndex = 5, feederSerial = 1, sheetLines = [], failedChecksSummary = []\<rparr>"
        "feedersByRegion feeders"]
    by simp
qed


section \<open>\<^verbatim>\<open>addAnalysisSheetsToWorkbook\<close>: the runs that raise, and the order of the regions\<close>

text \<open>
  A feeder whose region is \<^verbatim>\<open>null\<close>, or is named like a member of
  \<^verbatim>\<open>Object.prototype\<close>, makes the whole run raise a \<^verbatim>\<open>TypeError\<close> while the feeders
  are grouped, whatever the other feeders are; so does an identifier of that kind. A
  region that is a plain string is grouped under \<^verbatim>\<open>'Unknown'\<close>.
\<close>

lemma addAnalysisSheetsToWorkbook_raises:
  "addAnalysisSheetsToWorkbook sampleFormatDate [sampleFeeder\<lparr>feeder_region := NameNull\<rparr>]
     [0, 86400000, 172800000] [sampleReading 2 300] = Inl TypeError
   \<and> addAnalysisSheetsToWorkbook sampleFormatDate
        [sampleFeeder, sampleFeeder2\<lparr>feeder_region := NameObject ''constructor''\<rparr>]
        [0, 86400000, 172800000] [sampleReading 2 300] = Inl TypeError
   \<and> addAnalysisSheetsToWorkbook sampleFormatDate
        [sampleFeeder, sampleFeeder2\<lparr>feeder_region := NameObject ''__proto__''\<rparr>]
        [0, 86400000, 172800000] [sampleReading 2 300] = Inl TypeError
   \<and> addAnalysisSheetsToWorkbook sampleFormatDate [sampleFeeder\<lparr>feeder_id := ''toString''\<rparr>]
        [0, 86400000, 172800000] [sampleReading 2 300] = Inl TypeError
   \<and> addAnalysisSheetsToWorkbook sampleFormatDate [sampleFeeder] [0, 86400000, 172800000]
        [(sampleReading 2 300)\<lparr>reading_feeder := ''valueOf''\<rparr>] = Inl TypeError
   \<and> addAnalysisSheetsToWorkbook sampleFormatDate
        [sampleFeeder, sampleFeeder2\<lparr>feeder_region := NameString ''Region 2''\<rparr>]
        [0, 86400000, 172800000] [sampleReading 2 300]
      = Inr \<lparr>aa_rowIndex = 9,
              aa_copies = [(''> 130% Daily Uptake'', 6), (''Positive Variance'', 6)],
              aa_summary =
                [\<lparr>fc_feederName = ''Feeder 1'', fc_businessHub = ''Hub 1'',
                   fc_region = ''Region 1'', fc_date = ''1970-01-03'',
                   fc_failedChecks = [''> 130% Daily Uptake'']\<rparr>]\<rparr>"
  by (simp add: analyseFeeder_def lastDateStrOf_def buildReadingMap_def
      complianceRules_def sampleFormatDate_def sampleFeeder_def sampleFeeder2_def
      sampleReading_def msPerDay_def objectName_def noAnalysis_def addAnalysisSheetsToWorkbook_def
      pushUnderObject_def prototypeMembers_def regionNameOf_def readingsOfObject_def
      analysisStep_def analysisRegions_def objectKeys_def isArrayIndex_def Let_def)

text \<open>
  The loops of \<^verbatim>\<open>addAnalysisSheetsToWorkbook\<close> count the rows of the main sheet in the
  order of \<^verbatim>\<open>Object.keys\<close>, the report controller writes them in the order in which
  the regions first occur. With the regions \<^verbatim>\<open>'10'\<close> and \<^verbatim>\<open>'2'\<close> the two orders
  differ: Feeder 1 has row 6 of the main sheet, and the row copied for it is row 8.
\<close>

lemma analysis_rows_in_key_order:
  "map (\<lambda>st. map (\<lambda>line. case line of RegionBanner row regionName \<Rightarrow> (row, regionName)
                              | FeederLine row serial feeder cells \<Rightarrow> (row, feeder_name feeder))
                 (sheetLines st))
     (case_option [] (\<lambda>st. [st])
        (populateFeederData sampleFormatDate
           [sampleFeeder\<lparr>feeder_region := NameObject ''10''\<rparr>,
            sampleFeeder2\<lparr>feeder_region := NameObject ''2''\<rparr>]
           [0, 86400000, 172800000] (groupReadingsByFeeder [sampleReading 2 300]) True))
     = [[(5, ''10''), (6, ''Feeder 1''), (7, ''2''), (8, ''Feeder 2'')]]
   \<and> addAnalysisSheetsToWorkbook sampleFormatDate
        [sampleFeeder\<lparr>feeder_region := NameObject ''10''\<rparr>,
         sampleFeeder2\<lparr>feeder_region := NameObject ''2''\<rparr>]
        [0, 86400000, 172800000] [sampleReading 2 300]
      = Inr \<lparr>aa_rowIndex = 9,
              aa_copies = [(''> 130% Daily Uptake'', 8), (''Positive Variance'', 8)],
              aa_summary =
                [\<lparr>fc_feederName = ''Feeder 1'', fc_businessHub = ''Hub 1'',
                   fc_region = ''10'', fc_date = ''1970-01-03'',
                   fc_failedChecks = [''> 130% Daily Uptake'']\<rparr>]\<rparr>"
  by (simp add: runComplianceChecks_def analyseFeeder_def lastDateStrOf_def buildReadingMap_def
      complianceRules_def previousDayActual_def sampleFormatDate_def sampleFeeder_def
      sampleFeeder2_def sampleReading_def msPerDay_def readingsOf_def groupReadingsByFeeder_def
      populateFeederData_def populateFeeder_def feedersByRegion_def populateDateSpecificData_def
      refName_def objectName_def noAnalysis_def addAnalysisSheetsToWorkbook_def
      pushUnderObject_def prototypeMembers_def regionNameOf_def readingsOfObject_def
      analysisStep_def analysisRegions_def objectKeys_def isArrayIndex_def digitsValue_def Let_def)

section \<open>Insufficient data\<close>

lemma feeders_of_order:
  assumes "mset xs = mset (map (\<lambda>feeder. (key feeder, feeder)) feeders)"
  shows "mset (map snd xs) = mset feeders"
proof -
  have "mset (map snd xs) = image_mset snd (mset xs)" by simp
  also have "\<dots> = image_mset snd (image_mset (\<lambda>feeder. (key feeder, feeder)) (mset feeders))"
    unfolding assms by simp
  also have "\<dots> = mset feeders"
    by (simp add: multiset.map_comp comp_def)
  finally show ?thesis .
qed

text \<open>
  The report controller excludes a feeder without a positive reading on the final day,
  and goes on with the other feeders: every feeder of the input gets its line on the
  main sheet, and the summary is made of what the feeders contribute one by one.
\<close>

lemma populateFeederData_insufficient:
  assumes "dates \<noteq> []"
  shows "((case buildReadingMap formatDate (readingsOf readingsByFeeder feeder)
                  (formatDate (last dates)) of
             None \<Rightarrow> True
           | Some lastReading \<Rightarrow> cumulativeEnergyConsumption lastReading \<le> 0) \<longrightarrow>
            runComplianceChecks formatDate feeder
              (buildReadingMap formatDate (readingsOf readingsByFeeder feeder)) dates 0 = Some []
            \<and> feederSummary formatDate dates readingsByFeeder regionName feeder = [])
         \<and> (\<exists>st. populateFeederData formatDate feeders dates readingsByFeeder True = Some st
                \<and> lineFeeders (sheetLines st) = map snd (processingOrder (feedersByRegion feeders))
                \<and> mset (lineFeeders (sheetLines st)) = mset feeders
                \<and> failedChecksSummary st =
                     concat (map (\<lambda>(regionName, feeder).
                                    feederSummary formatDate dates readingsByFeeder regionName feeder)
                                 (processingOrder (feedersByRegion feeders))))"
proof (intro conjI impI)
  assume guard: "case buildReadingMap formatDate (readingsOf readingsByFeeder feeder)
                  (formatDate (last dates)) of
             None \<Rightarrow> True
           | Some lastReading \<Rightarrow> cumulativeEnergyConsumption lastReading \<le> 0"
  show run: "runComplianceChecks formatDate feeder
              (buildReadingMap formatDate (readingsOf readingsByFeeder feeder)) dates 0 = Some []"
    using assms guard by (rule runComplianceChecks_insufficient)
  show "feederSummary formatDate dates readingsByFeeder regionName feeder = []"
    unfolding feederSummary_def run by simp
next
  obtain st where st:
    "populateFeederData formatDate feeders dates readingsByFeeder True = Some st"
    "lineFeeders (sheetLines st) = map snd (processingOrder (feedersByRegion feeders))"
    "failedChecksSummary st =
       concat (map (\<lambda>(regionName, feeder).
                      feederSummary formatDate dates readingsByFeeder regionName feeder)
                   (processingOrder (feedersByRegion feeders)))"
    using populateFeederData_effect [OF assms, of formatDate feeders readingsByFeeder True]
    by auto
  have "mset (map snd (processingOrder (feedersByRegion feeders))) = mset feeders"
    by (rule feeders_of_order [OF processingOrder_feedersByRegion])
  with st show "\<exists>st. populateFeederData formatDate feeders dates readingsByFeeder True = Some st
                \<and> lineFeeders (sheetLines st) = map snd (processingOrder (feedersByRegion feeders))
                \<and> mset (lineFeeders (sheetLines st)) = mset feeders
                \<and> failedChecksSummary st =
                     concat (map (\<lambda>(regionName, feeder).
                                    feederSummary formatDate dates readingsByFeeder regionName feeder)
                                 (processingOrder (feedersByRegion feeders)))"
    by simp
qed

text \<open>
  Claim C5 holds of the report controller (\<open>populateFeederData_insufficient\<close>) and fails
  on \<^verbatim>\<open>addAnalysisSheetsToWorkbook\<close>, for the reason claim C3 fails there: the guard of
  the loop body asks for a positive reading on the feeder's latest reading day, not on
  the final day of the range. Over three days, a feeder with the readings 100 and 200 on
  the first two days has no reading on the final day. \<open>runComplianceChecks\<close> evaluates
  no rule for it and the controller's summary stays empty; the feeder has row 6 of the
  main sheet. \<^verbatim>\<open>addAnalysisSheetsToWorkbook\<close> classifies the second day and copies row 6
  to the sheets \<^verbatim>\<open>'Positive Variance'\<close> and \<^verbatim>\<open>'No Flags'\<close>. With the readings 100 and
  90 instead, it copies row 6 to three rule sheets and enters the feeder in the
  Failed Checks Summary.
\<close>

theorem insufficient_final_day_still_classified:
  "buildReadingMap sampleFormatDate [sampleReading 0 100, sampleReading 1 200]
     (sampleFormatDate (last [0, 86400000, 172800000])) = None
   \<and> runComplianceChecks sampleFormatDate sampleFeeder
        (buildReadingMap sampleFormatDate [sampleReading 0 100, sampleReading 1 200])
        [0, 86400000, 172800000] 0 = Some []
   \<and> populateFeederData sampleFormatDate [sampleFeeder] [0, 86400000, 172800000]
        (groupReadingsByFeeder [sampleReading 0 100, sampleReading 1 200]) True
      = Some \<lparr>rowIndex = 7, feederSerial = 2,
               sheetLines =
                 [RegionBanner 5 ''Region 1'',
                  FeederLine 6 1 sampleFeeder
                    [\<lparr>row_nomination = 100, row_actual = 100, row_variance = 0\<rparr>,
                     \<lparr>row_nomination = 200, row_actual = 200, row_variance = 0\<rparr>,
                     \<lparr>row_nomination = 300, row_actual = 200, row_variance = - 100\<rparr>]],
               failedChecksSummary = []\<rparr>
   \<and> addAnalysisSheetsToWorkbook sampleFormatDate [sampleFeeder] [0, 86400000, 172800000]
        [sampleReading 0 100, sampleReading 1 200]
      = Inr \<lparr>aa_rowIndex = 7,
              aa_copies = [(''Positive Variance'', 6), (''No Flags'', 6)],
              aa_summary = []\<rparr>
   \<and> runComplianceChecks sampleFormatDate sampleFeeder
        (buildReadingMap sampleFormatDate [sampleReading 0 100, sampleReading 1 90])
        [0, 86400000, 172800000] 0 = Some []
   \<and> addAnalysisSheetsToWorkbook sampleFormatDate [sampleFeeder] [0, 86400000, 172800000]
        [sampleReading 0 100, sampleReading 1 90]
      = Inr \<lparr>aa_rowIndex = 7,
              aa_copies = [(''Actual D-0 < Actual D-1'', 6), (''< 70% Nom'', 6),
                           (''< 70% Daily Uptake'', 6)],
              aa_summary =
                [\<lparr>fc_feederName = ''Feeder 1'', fc_businessHub = ''Hub 1'',
                  fc_region = ''Region 1'', fc_date = ''1970-01-02'',
                  fc_failedChecks = [''Actual D-0 < Actual D-1'', ''< 70% Nom'',
                                     ''< 70% Daily Uptake'']\<rparr>]\<rparr>"
  by (simp add: runComplianceChecks_def analyseFeeder_def lastDateStrOf_def buildReadingMap_def
      complianceRules_def previousDayActual_def sampleFormatDate_def sampleFeeder_def
      sampleReading_def msPerDay_def readingsOf_def groupReadingsByFeeder_def
      populateFeederData_def populateFeeder_def feedersByRegion_def populateDateSpecificData_def
      refName_def objectName_def noAnalysis_def addAnalysisSheetsToWorkbook_def
      pushUnderObject_def prototypeMembers_def regionNameOf_def readingsOfObject_def
      analysisStep_def analysisRegions_def objectKeys_def isArrayIndex_def Let_def)

section \<open>Category Router: No Flags and the failed-checks summary\<close>

lemma rule_labels:
  "set (complianceRules dailyUptake dayIndex nom act prev)
     \<subseteq> {''Actual D-0 < Actual D-1'', ''< 70% Nom'', ''> 130% Nom'',
         ''< 70% Daily Uptake'', ''> 130% Daily Uptake''}"
  unfolding complianceRules_def by (auto simp: Let_def)

lemma analyseFeeder_sufficient:
  assumes "lastDateStrOf formatDate readings = Some lastDateStr"
      and "lastDateStr \<noteq> []"
      and "buildReadingMap formatDate readings lastDateStr = Some lastReading"
      and "0 < cumulativeEnergyConsumption lastReading"
  shows "\<exists>checks positive.
           set checks \<subseteq> {''Actual D-0 < Actual D-1'', ''< 70% Nom'', ''> 130% Nom'',
                          ''< 70% Daily Uptake'', ''> 130% Daily Uptake''}
           \<and> set positive \<subseteq> {''Positive Variance''}
           \<and> analyseFeeder formatDate dates feeder readings regionName
               = \<lparr>fa_failedChecks = checks,
                  fa_copies = checks @ positive @ (if checks = [] then [''No Flags''] else []),
                  fa_summary =
                    (if checks = [] then []
                     else [\<lparr>fc_feederName = feeder_name feeder,
                            fc_businessHub = objectName (feeder_businessHub feeder),
                            fc_region = regionName,
                            fc_date = lastDateStr,
                            fc_failedChecks = checks\<rparr>])\<rparr>"
proof -
  define dayIndex where "dayIndex = findIndex (\<lambda>d. formatDate d = lastDateStr) dates + 1"
  define prev where
    "prev = (case buildReadingMap formatDate readings
                    (formatDate (reading_date lastReading - msPerDay)) of
               Some prevReading \<Rightarrow> cumulativeEnergyConsumption prevReading | None \<Rightarrow> 0)"
  define checks where
    "checks = complianceRules (dailyEnergyUptake feeder) dayIndex
                (dailyEnergyUptake feeder * real_of_int dayIndex)
                (cumulativeEnergyConsumption lastReading) prev"
  define positive where
    "positive = (if cumulativeEnergyConsumption lastReading
                      - dailyEnergyUptake feeder * real_of_int dayIndex \<ge> 0
                 then [''Positive Variance''] else [])"
  have "analyseFeeder formatDate dates feeder readings regionName
               = \<lparr>fa_failedChecks = checks,
                  fa_copies = checks @ positive @ (if checks = [] then [''No Flags''] else []),
                  fa_summary =
                    (if checks = [] then []
                     else [\<lparr>fc_feederName = feeder_name feeder,
                            fc_businessHub = objectName (feeder_businessHub feeder),
                            fc_region = regionName,
                            fc_date = lastDateStr,
                            fc_failedChecks = checks\<rparr>])\<rparr>"
    unfolding analyseFeeder_def checks_def positive_def prev_def dayIndex_def
    using assms by (simp add: Let_def)
  moreover have "set checks \<subseteq> {''Actual D-0 < Actual D-1'', ''< 70% Nom'', ''> 130% Nom'',
                          ''< 70% Daily Uptake'', ''> 130% Daily Uptake''}"
    unfolding checks_def by (rule rule_labels)
  moreover have "set positive \<subseteq> {''Positive Variance''}"
    unfolding positive_def by auto
  ultimately show ?thesis by blast
qed

lemma analyseFeeder_no_flags:
  "''No Flags'' \<in> set (fa_copies (analyseFeeder formatDate dates feeder readings regionName))
   \<longleftrightarrow> (\<exists>lastDateStr lastReading.
          lastDateStrOf formatDate readings = Some lastDateStr \<and> lastDateStr \<noteq> []
          \<and> buildReadingMap formatDate readings lastDateStr = Some lastReading
          \<and> 0 < cumulativeEnergyConsumption lastReading)
       \<and> fa_failedChecks (analyseFeeder formatDate dates feeder readings regionName) = []"
proof (cases "\<exists>lastDateStr lastReading.
          lastDateStrOf formatDate readings = Some lastDateStr \<and> lastDateStr \<noteq> []
          \<and> buildReadingMap formatDate readings lastDateStr = Some lastReading
          \<and> 0 < cumulativeEnergyConsumption lastReading")
  case True
  then obtain lastDateStr lastReading where guard:
    "lastDateStrOf formatDate readings = Some lastDateStr" "lastDateStr \<noteq> []"
    "buildReadingMap formatDate readings lastDateStr = Some lastReading"
    "0 < cumulativeEnergyConsumption lastReading"
    by blast
  from analyseFeeder_sufficient [OF guard, of dates feeder regionName]
  obtain checks positive where
    labels: "set checks \<subseteq> {''Actual D-0 < Actual D-1'', ''< 70% Nom'', ''> 130% Nom'',
                          ''< 70% Daily Uptake'', ''> 130% Daily Uptake''}"
    and positive: "set positive \<subseteq> {''Positive Variance''}"
    and result: "analyseFeeder formatDate dates feeder readings regionName
               = \<lparr>fa_failedChecks = checks,
                  fa_copies = checks @ positive @ (if checks = [] then [''No Flags''] else []),
                  fa_summary =
                    (if checks = [] then []
                     else [\<lparr>fc_feederName = feeder_name feeder,
                            fc_businessHub = objectName (feeder_businessHub feeder),
                            fc_region = regionName,
                            fc_date = lastDateStr,
                            fc_failedChecks = checks\<rparr>])\<rparr>"
    by blast
  have "''No Flags'' \<notin> set checks" using labels by auto
  moreover have "''No Flags'' \<notin> set positive" using positive by auto
  ultimately show ?thesis using True unfolding result by auto
next
  case False
  then have "case lastDateStrOf formatDate readings of
             None \<Rightarrow> True
           | Some lastDateStr \<Rightarrow>
               lastDateStr = [] \<or>
               (case buildReadingMap formatDate readings lastDateStr of
                  None \<Rightarrow> True
                | Some lastReading \<Rightarrow> cumulativeEnergyConsumption lastReading \<le> 0)"
    by (auto split: option.splits simp: not_less)
  from analyseFeeder_insufficient [OF this] False show ?thesis
    by (simp add: noAnalysis_def)
qed

lemma analyseFeeder_summary:
  "(fa_failedChecks (analyseFeeder formatDate dates feeder readings regionName) = []
      \<longrightarrow> fa_summary (analyseFeeder formatDate dates feeder readings regionName) = [])
   \<and> (fa_failedChecks (analyseFeeder formatDate dates feeder readings regionName) \<noteq> []
      \<longrightarrow> (\<exists>lastDateStr.
             lastDateStrOf formatDate readings = Some lastDateStr
             \<and> fa_summary (analyseFeeder formatDate dates feeder readings regionName)
                 = [\<lparr>fc_feederName = feeder_name feeder,
                     fc_businessHub = objectName (feeder_businessHub feeder),
                     fc_region = regionName,
                     fc_date = lastDateStr,
                     fc_failedChecks =
                       fa_failedChecks (analyseFeeder formatDate dates feeder readings regionName)\<rparr>]))"
  unfolding analyseFeeder_def noAnalysis_def
  by (auto simp: Let_def split: option.splits)

lemma feederSummary_cases:
  "runComplianceChecks formatDate feeder
      (buildReadingMap formatDate (readingsOf readingsByFeeder feeder)) dates 0 = Some checks \<Longrightarrow>
   feederSummary formatDate dates readingsByFeeder regionName feeder
     = (if checks = [] then []
        else [\<lparr>fc_feederName = feeder_name feeder,
               fc_businessHub = refName (feeder_businessHub feeder),
               fc_region = regionName,
               fc_date = formatDate (last dates),
               fc_failedChecks = checks\<rparr>])"
  unfolding feederSummary_def by simp

lemma populateFailedChecksSummary_rows:
  "map snd (populateFailedChecksSummary summary)
     = map (\<lambda>check. [fc_region check, fc_businessHub check, fc_feederName check, fc_date check,
                       joinStrings '', '' (fc_failedChecks check)]) summary
   \<and> map fst (populateFailedChecksSummary summary) = [6..<6 + length summary]"
proof -
  have "map snd (map (\<lambda>(i, check). (6 + i, F check)) (enumerate n xs)) = map F xs" for F :: "FailedChecks \<Rightarrow> string list" and n xs
    by (induction xs arbitrary: n) simp_all
  moreover have "map fst (map (\<lambda>(i, check). (6 + i, F check)) (enumerate n xs)) = [6 + n..<6 + n + length xs]"
    for F :: "FailedChecks \<Rightarrow> string list" and n xs
    by (induction xs arbitrary: n) (simp_all add: upt_conv_Cons add.assoc)
  ultimately show ?thesis unfolding populateFailedChecksSummary_def by simp
qed


text \<open>
  Claim C6 has two parts. The second holds in both files: a feeder with at least one
  failed check contributes exactly one entry to the failed-checks summary, carrying its
  list of failed checks, a feeder with none contributes nothing
  (\<open>analyseFeeder_summary\<close>, \<open>feederSummary_cases\<close>), and the summary sheet shows each
  entry with its list joined by \<^verbatim>\<open>', '\<close> (\<open>populateFailedChecksSummary_rows\<close>). The
  first part fails on \<^verbatim>\<open>addAnalysisSheetsToWorkbook\<close>, the only place that fills the sheet
  \<^verbatim>\<open>'No Flags'\<close>, for the reason claims C3 and C5 fail there: the guard of the loop body
  is passed by a positive reading on the feeder's latest reading day
  (\<open>analyseFeeder_no_flags\<close>), which need not be the final day of the range. Over three
  days, Feeder 1 has the readings 100 and 200 on the first two days and none on the
  final day, Feeder 2 has 100, 200 and 300. The data-sufficiency guard fails for
  Feeder 1 and passes for Feeder 2. The two feeders have the rows 6 and 7 of the main
  sheet, and both rows are copied to \<^verbatim>\<open>'No Flags'\<close>.
\<close>

theorem no_flags_without_final_day_reading:
  "buildReadingMap sampleFormatDate [sampleReading 0 100, sampleReading 1 200]
     (sampleFormatDate (last [0, 86400000, 172800000])) = None
   \<and> buildReadingMap sampleFormatDate
        [(sampleReading 0 100)\<lparr>reading_feeder := ''f2''\<rparr>,
         (sampleReading 1 200)\<lparr>reading_feeder := ''f2''\<rparr>,
         (sampleReading 2 300)\<lparr>reading_feeder := ''f2''\<rparr>]
        (sampleFormatDate (last [0, 86400000, 172800000]))
      = Some ((sampleReading 2 300)\<lparr>reading_feeder := ''f2''\<rparr>)
   \<and> map (\<lambda>st. (lineFeeders (sheetLines st), failedChecksSummary st))
        (case_option [] (\<lambda>st. [st])
          (populateFeederData sampleFormatDate [sampleFeeder, sampleFeeder2]
             [0, 86400000, 172800000]
             (groupReadingsByFeeder
                [sampleReading 0 100, (sampleReading 0 100)\<lparr>reading_feeder := ''f2''\<rparr>,
                 sampleReading 1 200, (sampleReading 1 200)\<lparr>reading_feeder := ''f2''\<rparr>,
                 (sampleReading 2 300)\<lparr>reading_feeder := ''f2''\<rparr>]) True))
      = [([sampleFeeder, sampleFeeder2], [])]
   \<and> addAnalysisSheetsToWorkbook sampleFormatDate [sampleFeeder, sampleFeeder2]
        [0, 86400000, 172800000]
        [sampleReading 0 100, (sampleReading 0 100)\<lparr>reading_feeder := ''f2''\<rparr>,
         sampleReading 1 200, (sampleReading 1 200)\<lparr>reading_feeder := ''f2''\<rparr>,
         (sampleReading 2 300)\<lparr>reading_feeder := ''f2''\<rparr>]
      = Inr \<lparr>aa_rowIndex = 8,
              aa_copies = [(''Positive Variance'', 6), (''No Flags'', 6),
                           (''Positive Variance'', 7), (''No Flags'', 7)],
              aa_summary = []\<rparr>"
  by (simp add: runComplianceChecks_def analyseFeeder_def lastDateStrOf_def buildReadingMap_def
      complianceRules_def previousDayActual_def sampleFormatDate_def sampleFeeder_def
      sampleFeeder2_def sampleReading_def msPerDay_def readingsOf_def groupReadingsByFeeder_def
      populateFeederData_def populateFeeder_def feedersByRegion_def populateDateSpecificData_def
      refName_def objectName_def noAnalysis_def addAnalysisSheetsToWorkbook_def
      pushUnderObject_def prototypeMembers_def regionNameOf_def readingsOfObject_def
      analysisStep_def analysisRegions_def objectKeys_def isArrayIndex_def Let_def)

section \<open>Report Orchestrator: a filter name that does not resolve\<close>

lemma generateSpecificDateReport_not_found:
  assumes "q_date q = GoodDate reportDate"
      and "(q_region q \<noteq> [] \<and> findRegion env (q_region q) = None)
           \<or> (q_businessHub q \<noteq> [] \<and> findBusinessHub env (q_businessHub q) = None)"
  shows "\<exists>message. generateSpecificDateReport env q = ([], Json 404 message)"
  using assms unfolding generateSpecificDateReport_def by (auto simp: Let_def)

text \<open>
  Claim C8 on the three handlers that take a region or business-hub name. The directory
  holds no region named \<^verbatim>\<open>Nowhere\<close>, and the feeder directory holds two feeders.
  \<open>generateSpecificDateReport\<close> answers 404 before any query for feeders or readings.
  \<open>sendReportByEmail\<close> and \<open>generateCustomReport\<close> leave the region out of the filter
  instead, query the feeders with the empty filter, fetch the readings and deliver a
  report over all feeders.
\<close>

theorem unresolved_region_filter:
  "generateSpecificDateReport
     \<lparr>findRegion = (\<lambda>name. None), findBusinessHub = (\<lambda>name. None),
      findFeeders = (\<lambda>filter. if filter_region filter = None \<and> filter_businessHub filter = None
                               then [sampleFeeder, sampleFeeder2] else [])\<rparr>
     \<lparr>q_date = GoodDate 0, q_region = ''Nowhere'', q_businessHub = []\<rparr>
     = ([], Json 404 (''Region '' @ quoted ''Nowhere'' @ '' not found''))
   \<and> sendReportByEmail
       \<lparr>findRegion = (\<lambda>name. None), findBusinessHub = (\<lambda>name. None),
        findFeeders = (\<lambda>filter. if filter_region filter = None \<and> filter_businessHub filter = None
                                 then [sampleFeeder, sampleFeeder2] else [])\<rparr>
       \<lparr>e_startDate = Some 0, e_endDate = Some 0, e_date = None, e_region = ''Nowhere'',
        e_businessHub = [], e_email = ''ops@example.com''\<rparr>
     = ([FeedersFetched \<lparr>filter_region = None, filter_businessHub = None\<rparr>,
         ReadingsFetched 0 0,
         ReportRendered [sampleFeeder, sampleFeeder2] [0]],
        Json 200 ''Report sent successfully!'')
   \<and> generateCustomReport
       \<lparr>findRegion = (\<lambda>name. None), findBusinessHub = (\<lambda>name. None),
        findFeeders = (\<lambda>filter. if filter_region filter = None \<and> filter_businessHub filter = None
                                 then [sampleFeeder, sampleFeeder2] else [])\<rparr>
       \<lparr>c_reportType = ''daily'', c_startDate = Some 0, c_endDate = Some 0,
        c_region = ''Nowhere'', c_businessHub = []\<rparr>
     = ([FeedersFetched \<lparr>filter_region = None, filter_businessHub = None\<rparr>,
         ReadingsFetched 0 0,
         ReportRendered [sampleFeeder, sampleFeeder2] [0]],
        Attachment)"
  by (simp add: generateSpecificDateReport_def sendReportByEmail_def generateCustomReport_def
      lenientFilter_def getDatesInRange_def getDatesInRange_loop.simps utcMidnight_def
      msPerDay_def Let_def)

section \<open>Reading Store Adapter: the single-entry cache\<close>

lemma dom_updateCache:
  "dom (readingsCache (updateCache toISOString startDate endDate now found))
     = {makeCacheKey toISOString startDate endDate}"
  unfolding updateCache_def by simp

lemma getAllReadingsInRange_cache:
  assumes "\<forall>k. k \<noteq> stored \<longrightarrow> readingsCache svc k = None"
  shows "dom (readingsCache (snd (getAllReadingsInRange toISOString startDate endDate now found svc)))
           = {makeCacheKey toISOString startDate endDate}"
proof (cases "readingsCache svc (makeCacheKey toISOString startDate endDate)")
  case None
  then show ?thesis
    unfolding getAllReadingsInRange_def by (simp add: Let_def dom_updateCache)
next
  case (Some cached)
  with assms have key: "makeCacheKey toISOString startDate endDate = stored" by force
  have "dom (readingsCache svc) = {stored}"
    using assms Some key by (auto simp: dom_def)
  with Some key show ?thesis
    unfolding getAllReadingsInRange_def by (simp add: Let_def dom_updateCache)
qed

lemma serveStep_cache:
  assumes "\<forall>k. k \<noteq> stored \<longrightarrow> readingsCache svc k = None"
  shows "dom (readingsCache (serveStep toISOString svc step))
           = {makeCacheKey toISOString (call_start (stepCall step)) (call_end (stepCall step))}"
  using getAllReadingsInRange_cache [OF assms]
  by (cases step) (simp_all add: dom_updateCache)

lemma serveSteps_single_entry:
  assumes "\<exists>stored. \<forall>k. k \<noteq> stored \<longrightarrow> readingsCache svc k = None"
  shows "\<exists>stored. \<forall>k. k \<noteq> stored \<longrightarrow> readingsCache (foldl (serveStep toISOString) svc steps) k = None"
  using assms
proof (induction steps arbitrary: svc)
  case Nil
  then show ?case by simp
next
  case (Cons step steps)
  from Cons.prems obtain stored where "\<forall>k. k \<noteq> stored \<longrightarrow> readingsCache svc k = None" by blast
  from serveStep_cache [OF this]
  have "dom (readingsCache (serveStep toISOString svc step))
          = {makeCacheKey toISOString (call_start (stepCall step)) (call_end (stepCall step))}" .
  then have "\<forall>k. k \<noteq> makeCacheKey toISOString (call_start (stepCall step)) (call_end (stepCall step))
               \<longrightarrow> readingsCache (serveStep toISOString svc step) k = None"
    by (auto simp: dom_def)
  then have "\<exists>stored. \<forall>k. k \<noteq> stored \<longrightarrow> readingsCache (serveStep toISOString svc step) k = None"
    by blast
  from Cons.IH [OF this] show ?case by simp
qed

lemma single_entry_card:
  assumes "\<forall>k. k \<noteq> stored \<longrightarrow> m k = None"
  shows "finite (dom m) \<and> card (dom m) \<le> 1"
proof -
  have sub: "dom m \<subseteq> {stored}" using assms by (auto simp: dom_def)
  then have "finite (dom m)" by (rule finite_subset) simp
  moreover from sub have "card (dom m) \<le> card {stored}" by (rule card_mono [rotated]) simp
  ultimately show ?thesis by simp
qed

text \<open>
  Claim C9. In every state the service reaches from its initial state, by invocations of
  \<open>getAllReadingsInRange\<close> and resumptions of invocations that missed, the cache holds at
  most one entry. After every invocation and every resumption it holds exactly one entry,
  under the key of the requested start and end date. An invocation returns the cached
  readings only when the requested key is the stored one and the age of the entry is
  below \<open>CACHE_TTL\<close>; otherwise it returns the store's answer and replaces the cache by
  that single entry.
\<close>

theorem cache_single_entry:
  "finite (dom (readingsCache (serveSteps toISOString steps)))
   \<and> card (dom (readingsCache (serveSteps toISOString steps))) \<le> 1
   \<and> dom (readingsCache (serveSteps toISOString (steps @ [step])))
       = {makeCacheKey toISOString (call_start (stepCall step)) (call_end (stepCall step))}
   \<and> getAllReadingsInRange toISOString startDate endDate now found
         (serveSteps toISOString steps)
       = (case readingsCache (serveSteps toISOString steps)
                 (makeCacheKey toISOString startDate endDate) of
            Some cached \<Rightarrow>
              if now - cacheTimestamp (serveSteps toISOString steps) < CACHE_TTL
              then (cached, serveSteps toISOString steps)
              else (found, \<lparr>readingsCache =
                               [makeCacheKey toISOString startDate endDate \<mapsto> found],
                             cacheTimestamp = now\<rparr>)
          | None \<Rightarrow> (found, \<lparr>readingsCache =
                                 [makeCacheKey toISOString startDate endDate \<mapsto> found],
                               cacheTimestamp = now\<rparr>))
   \<and> (fst (getAllReadingsInRange toISOString startDate endDate now found
              (serveSteps toISOString steps)) \<noteq> found
        \<longrightarrow> dom (readingsCache (serveSteps toISOString steps))
              = {makeCacheKey toISOString startDate endDate}
            \<and> now - cacheTimestamp (serveSteps toISOString steps) < CACHE_TTL
            \<and> readingsCache (serveSteps toISOString steps)
                 (makeCacheKey toISOString startDate endDate)
               = Some (fst (getAllReadingsInRange toISOString startDate endDate now found
                              (serveSteps toISOString steps))))"
proof -
  let ?svc = "serveSteps toISOString steps"
  let ?key = "makeCacheKey toISOString startDate endDate"
  have init: "\<exists>stored. \<forall>k. k \<noteq> stored \<longrightarrow> readingsCache initialService k = None"
    by (simp add: initialService_def)
  from serveSteps_single_entry [OF init, of toISOString steps]
  obtain stored where single: "\<forall>k. k \<noteq> stored \<longrightarrow> readingsCache ?svc k = None"
    unfolding serveSteps_def by blast
  note card = single_entry_card [OF single]
  have after: "dom (readingsCache (serveSteps toISOString (steps @ [step])))
       = {makeCacheKey toISOString (call_start (stepCall step)) (call_end (stepCall step))}"
    using serveStep_cache [OF single]
    unfolding serveSteps_def by simp
  have result: "getAllReadingsInRange toISOString startDate endDate now found ?svc
       = (case readingsCache ?svc ?key of
            Some cached \<Rightarrow>
              if now - cacheTimestamp ?svc < CACHE_TTL
              then (cached, ?svc)
              else (found, \<lparr>readingsCache = [?key \<mapsto> found], cacheTimestamp = now\<rparr>)
          | None \<Rightarrow> (found, \<lparr>readingsCache = [?key \<mapsto> found], cacheTimestamp = now\<rparr>))"
    unfolding getAllReadingsInRange_def updateCache_def by (simp add: Let_def)
  have hit: "dom (readingsCache ?svc) = {?key}
            \<and> now - cacheTimestamp ?svc < CACHE_TTL
            \<and> readingsCache ?svc ?key
               = Some (fst (getAllReadingsInRange toISOString startDate endDate now found ?svc))"
    if differs: "fst (getAllReadingsInRange toISOString startDate endDate now found ?svc) \<noteq> found"
  proof -
    from differs obtain cached where cached: "readingsCache ?svc ?key = Some cached"
      and fresh: "now - cacheTimestamp ?svc < CACHE_TTL"
      unfolding result by (auto split: option.splits if_splits)
    from cached single have "?key = stored" by force
    with single cached have "dom (readingsCache ?svc) = {?key}" by (auto simp: dom_def)
    with cached fresh show ?thesis unfolding result by simp
  qed
  from card after result hit show ?thesis by blast
qed

theorem cache_single_entry_witness:
  "serveSteps (\<lambda>t. if t = 0 then ''a'' else ''b'')
     [Invocation \<lparr>call_start = 0, call_end = 1, call_now = 1000,
                   call_found = [sampleReading 0 100]\<rparr>]
     = \<lparr>readingsCache = [''a-b'' \<mapsto> [sampleReading 0 100]], cacheTimestamp = 1000\<rparr>
   \<and> fst (getAllReadingsInRange (\<lambda>t. if t = 0 then ''a'' else ''b'') 0 1 2000 []
        (serveSteps (\<lambda>t. if t = 0 then ''a'' else ''b'')
           [Invocation \<lparr>call_start = 0, call_end = 1, call_now = 1000,
                         call_found = [sampleReading 0 100]\<rparr>]))
      = [sampleReading 0 100]
   \<and> [sampleReading 0 100] \<noteq> []
   \<and> dom (readingsCache (serveSteps (\<lambda>t. if t = 0 then ''a'' else ''b'')
           [Invocation \<lparr>call_start = 0, call_end = 1, call_now = 1000,
                         call_found = [sampleReading 0 100]\<rparr>])) = {''a-b''}
   \<and> (2000 :: int) - 1000 < CACHE_TTL
   \<and> getAllReadingsInRange (\<lambda>t. if t = 0 then ''a'' else ''b'') 0 1 400000 []
        (serveSteps (\<lambda>t. if t = 0 then ''a'' else ''b'')
           [Invocation \<lparr>call_start = 0, call_end = 1, call_now = 1000,
                         call_found = [sampleReading 0 100]\<rparr>])
      = ([], \<lparr>readingsCache = [''a-b'' \<mapsto> []], cacheTimestamp = 400000\<rparr>)
   \<and> dom (readingsCache (serveSteps (\<lambda>t. if t = 0 then ''a'' else ''b'')
           ([Invocation \<lparr>call_start = 0, call_end = 1, call_now = 1000,
                          call_found = [sampleReading 0 100]\<rparr>]
            @ [Resumption \<lparr>call_start = 1, call_end = 1, call_now = 900, call_found = []\<rparr>])))
      = {''b-b''}"
  using cache_single_entry [of "\<lambda>t. if t = 0 then ''a'' else ''b''"
          "[Invocation \<lparr>call_start = 0, call_end = 1, call_now = 1000,
                         call_found = [sampleReading 0 100]\<rparr>]"
          "Resumption \<lparr>call_start = 1, call_end = 1, call_now = 900, call_found = []\<rparr>"
          0 1 2000 "[]"]
        cache_single_entry [of "\<lambda>t. if t = 0 then ''a'' else ''b''"
          "[Invocation \<lparr>call_start = 0, call_end = 1, call_now = 1000,
                         call_found = [sampleReading 0 100]\<rparr>]"
          "Resumption \<lparr>call_start = 1, call_end = 1, call_now = 900, call_found = []\<rparr>"
          0 1 400000 "[]"]
  by (simp add: serveSteps_def getAllReadingsInRange_def updateCache_def makeCacheKey_def
      initialService_def CACHE_TTL_def sampleReading_def Let_def)

end
